theory Spec2Isabelle
  imports Complex_Main "HOL-Library.AList" "HOL-Library.Multiset"
begin

section \<open>Data model\<close>

text \<open>
  JavaScript numbers are modelled as follows: coordinates, distances and angles are
  \<open>real\<close> (exact arithmetic instead of IEEE doubles), atom indices and counters are
  \<open>nat\<close>, residue numbers are \<open>int\<close>; NaN and the infinities are not modelled (the
  structure provider gives finite coordinates). Strings are \<open>string\<close> (8-bit characters).
  \<open>Point3D\<close> and \<open>Vector3\<close> are the same structural type; an \<open>AtomData\<close> is passed
  wherever a \<open>Point3D\<close> is expected, which the record extension expresses.
\<close>

record Point3D =
  x :: real
  y :: real
  z :: real

type_synonym Vector3 = Point3D

record AtomData = Point3D +
  index :: nat
  name :: string
  element :: string
  resName :: string
  resNo :: int
  chain :: string
  isHet :: bool

datatype InteractionType =
  HydrogenBond | Hydrophobic | SaltBridge | PiStacking | HalogenBond
  | MetalCoordination | Unknown

record Interaction =
  id_of :: string
  type_of :: InteractionType
  distance_of :: real
  ligandAtom :: AtomData
  proteinAtom :: AtomData
  angle_of :: "real option"

record ResidueOption =
  ro_resName :: string
  ro_resNo :: int
  ro_chain :: string
  ro_atomCount :: nat

record AnalysisResult =
  interactions :: "Interaction list"
  ligandCenter :: Point3D

text \<open>
  The structure provider (the NGL library) is outside the repository. A structure is
  taken as the two traversals the code uses: \<open>eachAtom\<close> and \<open>eachResidue\<close> visit the
  proxies below in list order.
\<close>

record AtomProxy = Point3D +
  ap_index :: nat
  ap_atomname :: string
  ap_element :: string
  ap_resname :: string
  ap_resno :: int
  ap_chainname :: string
  ap_isHetero :: bool

record ResidueProxy =
  rp_resname :: string
  rp_resno :: int
  rp_chainname :: string
  rp_atomCount :: nat
  rp_isHetero :: bool

record Structure =
  eachAtom :: "AtomProxy list"
  eachResidue :: "ResidueProxy list"

datatype error = TypeError

section \<open>Constants\<close>

definition HBOND_DIST :: real where "HBOND_DIST = 3.5"
definition SALT_BRIDGE_DIST :: real where "SALT_BRIDGE_DIST = 4.0"
definition HYDROPHOBIC_DIST :: real where "HYDROPHOBIC_DIST = 4.5"
definition PI_STACKING_DIST :: real where "PI_STACKING_DIST = 5.5"
definition PI_STACKING_ANGLE_PARALLEL :: real where "PI_STACKING_ANGLE_PARALLEL = 30"
definition PI_STACKING_ANGLE_TSHAPED :: real where "PI_STACKING_ANGLE_TSHAPED = 60"
definition PI_CATION_DIST :: real where "PI_CATION_DIST = 5.0"
definition HALOGEN_DIST :: real where "HALOGEN_DIST = 3.5"
definition METAL_DIST :: real where "METAL_DIST = 2.8"

definition POS_CHARGE_ATOMS :: "(string \<times> string list) list" where
  "POS_CHARGE_ATOMS =
     [(''ARG'', [''NH1'', ''NH2'', ''CZ'']), (''LYS'', [''NZ'']), (''HIS'', [''ND1'', ''NE2''])]"

definition NEG_CHARGE_ATOMS :: "(string \<times> string list) list" where
  "NEG_CHARGE_ATOMS = [(''ASP'', [''OD1'', ''OD2'']), (''GLU'', [''OE1'', ''OE2''])]"

definition AROMATIC_PLANES :: "(string \<times> string list) list" where
  "AROMATIC_PLANES =
     [(''PHE'', [''CG'', ''CD1'', ''CD2'', ''CE1'', ''CE2'', ''CZ'']),
      (''TYR'', [''CG'', ''CD1'', ''CD2'', ''CE1'', ''CE2'', ''CZ'']),
      (''TRP'', [''CG'', ''CD1'', ''CD2'', ''NE1'', ''CE2'', ''CE3'', ''CZ2'', ''CZ3'', ''CH2'']),
      (''HIS'', [''CG'', ''ND1'', ''CD2'', ''CE1'', ''NE2''])]"

definition DONORS :: "string list" where "DONORS = [''N'', ''O'', ''S'']"
definition ACCEPTORS :: "string list" where "ACCEPTORS = [''N'', ''O'', ''S'']"
definition HALOGENS :: "string list" where "HALOGENS = [''CL'', ''BR'', ''I'']"
definition METALS :: "string list" where
  "METALS = [''ZN'', ''MG'', ''FE'', ''CU'', ''CA'', ''NA'', ''K'', ''MN'', ''CO'', ''NI'']"

section \<open>Geometry kernel\<close>

definition distance :: "'a Point3D_scheme \<Rightarrow> 'b Point3D_scheme \<Rightarrow> real" where
  "distance a b =
     (let dx = x a - x b; dy = y a - y b; dz = z a - z b
      in sqrt (dx * dx + dy * dy + dz * dz))"

definition distanceSq :: "'a Point3D_scheme \<Rightarrow> 'b Point3D_scheme \<Rightarrow> real" where
  "distanceSq a b =
     (let dx = x a - x b; dy = y a - y b; dz = z a - z b
      in dx * dx + dy * dy + dz * dz)"

definition getCenter :: "'a Point3D_scheme list \<Rightarrow> Point3D" where
  "getCenter atoms =
     (if length atoms = 0 then \<lparr>x = 0, y = 0, z = 0\<rparr>
      else let s = fold (\<lambda>a (sx, sy, sz). (sx + x a, sy + y a, sz + z a)) atoms (0, 0, 0)
           in case s of (sx, sy, sz) \<Rightarrow>
                \<lparr>x = sx / real (length atoms), y = sy / real (length atoms),
                 z = sz / real (length atoms)\<rparr>)"

definition sub :: "'a Point3D_scheme \<Rightarrow> 'b Point3D_scheme \<Rightarrow> Vector3" where
  "sub a b = \<lparr>x = x a - x b, y = y a - y b, z = z a - z b\<rparr>"

definition dot :: "Vector3 \<Rightarrow> Vector3 \<Rightarrow> real" where
  "dot a b = x a * x b + y a * y b + z a * z b"

definition cross :: "Vector3 \<Rightarrow> Vector3 \<Rightarrow> Vector3" where
  "cross a b =
     \<lparr>x = y a * z b - z a * y b, y = z a * x b - x a * z b, z = x a * y b - y a * x b\<rparr>"

definition mag :: "Vector3 \<Rightarrow> real" where
  "mag v = sqrt (x v * x v + y v * y v + z v * z v)"

definition normalize_v :: "Vector3 \<Rightarrow> Vector3" where
  "normalize_v v =
     (let m = mag v
      in if m = 0 then \<lparr>x = 0, y = 0, z = 0\<rparr>
         else \<lparr>x = x v / m, y = y v / m, z = z v / m\<rparr>)"

definition angleBetween :: "Vector3 \<Rightarrow> Vector3 \<Rightarrow> real" where
  "angleBetween v1 v2 =
     (let dotProd = dot v1 v2; mag1 = mag v1; mag2 = mag v2
      in if mag1 = 0 \<or> mag2 = 0 then 0
         else let cosTheta = max (- 1) (min 1 (\<bar>dotProd\<bar> / (mag1 * mag2)))
              in (arccos cosTheta * 180) / pi)"

text \<open>
  \<open>getPlaneNormal\<close> reads the first, the middle and the last point; the guard on the
  length keeps the three reads in range.
\<close>

definition getPlaneNormal :: "'a Point3D_scheme list \<Rightarrow> Vector3" where
  "getPlaneNormal atoms =
     (if length atoms < 3 then \<lparr>x = 0, y = 0, z = 1\<rparr>
      else let p1 = atoms ! 0;
               p2 = atoms ! (length atoms div 2);
               p3 = atoms ! (length atoms - 1);
               v1 = sub p2 p1;
               v2 = sub p3 p1
           in normalize_v (cross v1 v2))"

section \<open>Strings\<close>

text \<open>
  The strings of the structure and of the queries are lists of 8-bit characters, read as
  Latin-1. The result of JavaScript's \<open>toUpperCase\<close> can leave Latin-1, so it is a list
  of UTF-16 code units: a-z (97-122) and the letters 224-254 without the division sign
  247 lie 32 above their upper case, sharp s (223) becomes \<open>SS\<close>, the micro sign (181)
  becomes U+039C and y with diaeresis (255) becomes U+0178; every other character is
  its own upper case. \<open>trim\<close> removes the white space and line terminators of
  ECMAScript from both ends.
\<close>

type_synonym codeUnit = nat

definition codeUnits :: "string \<Rightarrow> codeUnit list" where
  "codeUnits s = map of_char s"

definition isLowerCode :: "nat \<Rightarrow> bool" where
  "isLowerCode n = ((97 \<le> n \<and> n \<le> 122) \<or> (224 \<le> n \<and> n \<le> 254 \<and> n \<noteq> 247))"

definition isUpperCode :: "nat \<Rightarrow> bool" where
  "isUpperCode n = ((65 \<le> n \<and> n \<le> 90) \<or> (192 \<le> n \<and> n \<le> 222 \<and> n \<noteq> 215))"

definition toUpperChar :: "char \<Rightarrow> codeUnit list" where
  "toUpperChar c =
     (let n = (of_char c :: nat)
      in if n = 223 then [83, 83]
         else if n = 181 then [924]
         else if n = 255 then [376]
         else if isLowerCode n then [n - 32]
         else [n])"

definition toUpperCase :: "string \<Rightarrow> codeUnit list" where
  "toUpperCase s = concat (map toUpperChar s)"

definition isWhiteSpace :: "codeUnit \<Rightarrow> bool" where
  "isWhiteSpace n =
     (n \<in> {9, 10, 11, 12, 13, 32, 160, 5760, 8232, 8233, 8239, 8287, 12288, 65279}
      \<or> (8192 \<le> n \<and> n \<le> 8202))"

definition trim :: "codeUnit list \<Rightarrow> codeUnit list" where
  "trim s = rev (dropWhile isWhiteSpace (rev (dropWhile isWhiteSpace s)))"

section \<open>Residue lookup by name\<close>

text \<open>
  \<open>findResidueByName\<close>: the callback given to \<open>eachResidue\<close> is \<open>findResidueStep\<close>, with
  the variable \<open>found\<close> it assigns as the state of the traversal.
\<close>

definition toResidueOption :: "ResidueProxy \<Rightarrow> ResidueOption" where
  "toResidueOption rp =
     \<lparr>ro_resName = rp_resname rp, ro_resNo = rp_resno rp,
      ro_chain = rp_chainname rp, ro_atomCount = rp_atomCount rp\<rparr>"

definition findResidueStep :: "codeUnit list \<Rightarrow> ResidueProxy \<Rightarrow> ResidueOption option \<Rightarrow> ResidueOption option" where
  "findResidueStep q rp found =
     (case found of
        Some r \<Rightarrow> found
      | None \<Rightarrow> if toUpperCase (rp_resname rp) = q then Some (toResidueOption rp) else found)"

definition findResidueByName :: "Structure \<Rightarrow> string \<Rightarrow> ResidueOption option" where
  "findResidueByName structure queryName =
     (let q = trim (toUpperCase queryName)
      in fold (findResidueStep q) (eachResidue structure) None)"

text \<open>
  The lookup as the specification words it: the first residue in traversal order whose
  name equals the trimmed query case-insensitively, and no result when there is none.
  Two strings are equal case-insensitively when their case foldings are equal; the case
  folding turns the upper-case letters A-Z and 192-222 (without the multiplication sign
  215) into lower case and sharp s into \<open>ss\<close>. The trimmed query is the query without
  the white space at its ends. The lookup is compared with the code's function below.
\<close>

definition foldChar :: "char \<Rightarrow> string" where
  "foldChar c =
     (let n = (of_char c :: nat)
      in if n = 223 then ''ss''
         else if isUpperCode n then [char_of (n + 32)]
         else [c])"

definition foldCase :: "string \<Rightarrow> string" where
  "foldCase s = concat (map foldChar s)"

definition equalsIgnoreCase :: "string \<Rightarrow> string \<Rightarrow> bool" where
  "equalsIgnoreCase a b = (foldCase a = foldCase b)"

definition isSpaceChar :: "char \<Rightarrow> bool" where
  "isSpaceChar c = ((of_char c :: nat) \<in> {9, 10, 11, 12, 13, 32, 160})"

definition trimmed :: "string \<Rightarrow> string" where
  "trimmed s = rev (dropWhile isSpaceChar (rev (dropWhile isSpaceChar s)))"

text \<open>
  The case folding of the code units that \<open>toUpperCase\<close> produces from Latin-1.
\<close>

definition foldUnit :: "codeUnit \<Rightarrow> string" where
  "foldUnit n =
     (if n = 924 then [char_of (181 :: nat)]
      else if n = 376 then [char_of (255 :: nat)]
      else foldChar (char_of n))"

definition firstResidueNamed :: "Structure \<Rightarrow> string \<Rightarrow> ResidueOption option" where
  "firstResidueNamed structure queryName =
     (case find (\<lambda>rp. equalsIgnoreCase (rp_resname rp) (trimmed queryName)) (eachResidue structure) of
        None \<Rightarrow> None
      | Some rp \<Rightarrow> Some (toResidueOption rp))"

text \<open>
  A small residue list, for evaluating the lookup; the fourth name starts with e acute
  (0xE9).
\<close>

definition exampleResidues :: Structure where
  "exampleResidues =
     \<lparr>eachAtom = [],
      eachResidue =
        [\<lparr>rp_resname = ''ALA'', rp_resno = 1, rp_chainname = ''A'', rp_atomCount = 5, rp_isHetero = False\<rparr>,
         \<lparr>rp_resname = ''Lig'', rp_resno = 301, rp_chainname = ''A'', rp_atomCount = 20, rp_isHetero = True\<rparr>,
         \<lparr>rp_resname = ''LIG'', rp_resno = 302, rp_chainname = ''B'', rp_atomCount = 21, rp_isHetero = True\<rparr>,
         \<lparr>rp_resname = [CHR 0xE9, CHR ''t'', CHR ''1''], rp_resno = 303, rp_chainname = ''B'',
          rp_atomCount = 9, rp_isHetero = True\<rparr>,
         \<lparr>rp_resname = ''SS'', rp_resno = 304, rp_chainname = ''B'', rp_atomCount = 2, rp_isHetero = True\<rparr>]\<rparr>"

section \<open>Number to string\<close>

text \<open>
  The template literals of the code turn numbers into strings. \<open>showNat\<close> is the
  decimal notation of a non-negative integer, \<open>showInt\<close> that of an integer.
\<close>

definition decimalDigits :: string where
  "decimalDigits = ''0123456789''"

definition digitChar :: "nat \<Rightarrow> char" where
  "digitChar d = decimalDigits ! d"

function showNat :: "nat \<Rightarrow> string" where
  "showNat n = (if n < 10 then [digitChar n] else showNat (n div 10) @ [digitChar (n mod 10)])"
  by pat_completeness auto
termination
  by (relation "measure (\<lambda>n. n)") auto

definition showInt :: "int \<Rightarrow> string" where
  "showInt i = (if i < 0 then CHR ''-'' # showNat (nat (- i)) else showNat (nat i))"

section \<open>Deduplication\<close>

text \<open>
  The last part of \<open>analyzeInteractions\<close>. \<open>pairMap\<close> is a JavaScript \<open>Map\<close> with string
  keys: it is modelled as an association list in insertion order, where \<open>set\<close> on a
  key that is present replaces the value in place and \<open>set\<close> on a new key appends
  (\<open>AList.update\<close>), so that \<open>Array.from(pairMap.values())\<close> is the list of second
  components.
\<close>

definition pairKey :: "Interaction \<Rightarrow> string" where
  "pairKey i = showNat (index (ligandAtom i)) @ ''-'' @ showNat (index (proteinAtom i))"

definition typeScore :: "InteractionType \<Rightarrow> nat" where
  "typeScore t =
     (if t = SaltBridge then 4
      else if t = PiStacking then 3
      else if t = HydrogenBond then 2
      else 1)"

definition dedupStep :: "Interaction \<Rightarrow> (string \<times> Interaction) list \<Rightarrow> (string \<times> Interaction) list" where
  "dedupStep i pairMap =
     (let key = pairKey i
      in case map_of pairMap key of
           None \<Rightarrow> AList.update key i pairMap
         | Some existing \<Rightarrow>
             if typeScore (type_of i) > typeScore (type_of existing)
             then AList.update key i pairMap
             else pairMap)"

definition deduplicate :: "Interaction list \<Rightarrow> Interaction list" where
  "deduplicate candidates = map snd (fold dedupStep candidates [])"

text \<open>The pair of atom indices an interaction refers to.\<close>

definition pairOf :: "Interaction \<Rightarrow> nat \<times> nat" where
  "pairOf i = (index (ligandAtom i), index (proteinAtom i))"

text \<open>
  What one key of \<open>pairMap\<close> holds after a candidate for that key has been processed
  (a view of \<open>dedupStep\<close> used in the proofs).
\<close>

definition better :: "Interaction \<Rightarrow> Interaction option \<Rightarrow> Interaction option" where
  "better i acc =
     (case acc of
        None \<Rightarrow> Some i
      | Some existing \<Rightarrow>
          if typeScore (type_of i) > typeScore (type_of existing) then Some i else Some existing)"

text \<open>
  Example candidates for one atom pair (ligand atom 7, protein atom 42) and a second
  pair (ligand atom 7, protein atom 43), in detection order.
\<close>

definition exLigandO :: AtomData where
  "exLigandO = \<lparr>x = 0, y = 0, z = 0, index = 7, name = ''O1'', element = ''O'',
                 resName = ''LIG'', resNo = 301, chain = ''A'', isHet = True\<rparr>"

definition exProteinN :: AtomData where
  "exProteinN = \<lparr>x = 0, y = 0, z = 3, index = 42, name = ''NZ'', element = ''N'',
                  resName = ''LYS'', resNo = 10, chain = ''A'', isHet = False\<rparr>"

definition exProteinC :: AtomData where
  "exProteinC = \<lparr>x = 0, y = 0, z = 4, index = 43, name = ''CE'', element = ''C'',
                  resName = ''LYS'', resNo = 10, chain = ''A'', isHet = False\<rparr>"

definition exSB :: Interaction where
  "exSB = \<lparr>id_of = ''sb-0'', type_of = SaltBridge, distance_of = 3,
            ligandAtom = exLigandO, proteinAtom = exProteinN, angle_of = None\<rparr>"

definition exHB :: Interaction where
  "exHB = \<lparr>id_of = ''hb-1'', type_of = HydrogenBond, distance_of = 3,
            ligandAtom = exLigandO, proteinAtom = exProteinN, angle_of = None\<rparr>"

definition exXB :: Interaction where
  "exXB = \<lparr>id_of = ''xb-2'', type_of = HalogenBond, distance_of = 4,
            ligandAtom = exLigandO, proteinAtom = exProteinC, angle_of = None\<rparr>"

definition exMT :: Interaction where
  "exMT = \<lparr>id_of = ''mt-3'', type_of = MetalCoordination, distance_of = 4,
            ligandAtom = exLigandO, proteinAtom = exProteinC, angle_of = None\<rparr>"

section \<open>Ring perception\<close>

text \<open>
  \<open>findLigandRings\<close>. The adjacency lists are built by the two nested loops of the
  code, with \<open>push\<close> as an update of the list at that position. The \<open>Set\<close> of visited
  keys is the list of its elements in insertion order; \<open>has\<close> is membership. The
  state that \<open>dfs\<close> changes (\<open>visitedPaths\<close> and \<open>rings\<close>) is passed through the calls.
\<close>

record RingSearch =
  visitedPaths :: "string list"
  rings :: "AtomData list list"

fun joinComma :: "string list \<Rightarrow> string" where
  "joinComma [] = []"
| "joinComma [s] = s"
| "joinComma (s # t # ts) = s @ '','' @ joinComma (t # ts)"

definition pathKey :: "nat list \<Rightarrow> string" where
  "pathKey path = (let sortedPath = sort path in joinComma (map showNat sortedPath))"

definition buildAdjacency :: "AtomData list \<Rightarrow> nat list list" where
  "buildAdjacency atoms =
     fold (\<lambda>i adj.
             fold (\<lambda>j adj.
                     if distance (atoms ! i) (atoms ! j) < 1.65
                     then (let adj1 = adj[i := adj ! i @ [j]] in adj1[j := adj1 ! j @ [i]])
                     else adj)
                  [i + 1 ..< length atoms] adj)
          [0 ..< length atoms] (map (\<lambda>a. []) atoms)"

function dfs :: "nat list list \<Rightarrow> AtomData list \<Rightarrow> nat \<Rightarrow> nat \<Rightarrow> nat list \<Rightarrow> RingSearch \<Rightarrow> RingSearch" where
  "dfs adj atoms start current path st =
     (if length path > 6 then st
      else if length path \<ge> 5 \<and> start \<in> set (adj ! current) then
        (let key = pathKey path
         in if key \<notin> set (visitedPaths st)
            then st\<lparr>visitedPaths := visitedPaths st @ [key],
                    rings := rings st @ [map (\<lambda>idx. atoms ! idx) path]\<rparr>
            else st)
      else fold (\<lambda>neighbor st'.
                   if neighbor \<notin> set path
                   then dfs adj atoms start neighbor (path @ [neighbor]) st'
                   else st')
                (adj ! current) st)"
  by pat_completeness auto
termination
  by (relation "measure (\<lambda>(adj, atoms, start, current, path, st). 7 - length path)") auto

definition findLigandRings :: "AtomData list \<Rightarrow> AtomData list list" where
  "findLigandRings atoms =
     (if length atoms = 0 then []
      else let adj = buildAdjacency atoms;
               st = fold (\<lambda>i st.
                            if element (atoms ! i) \<in> set [''C'', ''N'']
                            then dfs adj atoms i i [i] st
                            else st)
                         [0 ..< length atoms] \<lparr>visitedPaths = [], rings = []\<rparr>
           in rings st)"

text \<open>
  The invariant of the search: the rings found so far are the atoms of paths of 5 or 6
  positions of the atom list, and the visited keys are the keys of these paths, each
  once.
\<close>

definition ringInv :: "AtomData list \<Rightarrow> RingSearch \<Rightarrow> bool" where
  "ringInv atoms st =
     (\<exists>paths. rings st = map (map (\<lambda>idx. atoms ! idx)) paths
            \<and> visitedPaths st = map pathKey paths
            \<and> distinct (visitedPaths st)
            \<and> (\<forall>p \<in> set paths. (length p = 5 \<or> length p = 6) \<and> (\<forall>idx \<in> set p. idx < length atoms)))"

section \<open>Interaction engine\<close>

text \<open>
  \<open>analyzeInteractions\<close>, block by block. The array \<open>interactions\<close> and the counter
  \<open>idCounter\<close> that the blocks change are the state \<open>Detection\<close>, passed through them.
\<close>

definition parseNGLAtom :: "AtomProxy \<Rightarrow> AtomData" where
  "parseNGLAtom ap =
     \<lparr>x = x ap, y = y ap, z = z ap, index = ap_index ap, name = ap_atomname ap,
      element = ap_element ap, resName = ap_resname ap, resNo = ap_resno ap,
      chain = ap_chainname ap, isHet = ap_isHetero ap\<rparr>"

text \<open>1. Extract atoms: the callback given to \<open>eachAtom\<close>, on the two arrays.\<close>

definition isLigand :: "ResidueOption \<Rightarrow> AtomProxy \<Rightarrow> bool" where
  "isLigand ligandResidue ap =
     (ap_resno ap = ro_resNo ligandResidue
      \<and> ap_chainname ap = ro_chain ligandResidue
      \<and> ap_resname ap = ro_resName ligandResidue)"

definition extractStep :: "ResidueOption \<Rightarrow> AtomProxy \<Rightarrow> AtomData list \<times> AtomData list
    \<Rightarrow> AtomData list \<times> AtomData list" where
  "extractStep ligandResidue ap arrays =
     (case arrays of (ligandAtoms, proteinAtoms) \<Rightarrow>
        if isLigand ligandResidue ap then (ligandAtoms @ [parseNGLAtom ap], proteinAtoms)
        else if \<not> ap_isHetero ap then (ligandAtoms, proteinAtoms @ [parseNGLAtom ap])
        else (ligandAtoms, proteinAtoms))"

definition extractAtoms :: "Structure \<Rightarrow> ResidueOption \<Rightarrow> AtomData list \<times> AtomData list" where
  "extractAtoms structure ligandResidue =
     fold (extractStep ligandResidue) (eachAtom structure) ([], [])"

text \<open>
  The record \<open>proteinResidues\<close>: an object with string keys that all contain a colon,
  so that \<open>Object.values\<close> lists the groups in the order in which their keys were added.
\<close>

definition residueKey :: "AtomData \<Rightarrow> string" where
  "residueKey a = chain a @ '':'' @ showInt (resNo a)"

definition groupStep :: "AtomData \<Rightarrow> (string \<times> AtomData list) list \<Rightarrow> (string \<times> AtomData list) list" where
  "groupStep a proteinResidues =
     (let key = residueKey a;
          created = (if map_of proteinResidues key = None
                     then AList.update key [] proteinResidues
                     else proteinResidues)
      in AList.map_entry key (\<lambda>atoms. atoms @ [a]) created)"

definition groupResidues :: "AtomData list \<Rightarrow> AtomData list list" where
  "groupResidues relevantProteinAtoms = map snd (fold groupStep relevantProteinAtoms [])"

record LigandRing =
  center :: Point3D
  normal :: Vector3
  ring_atoms :: "AtomData list"

definition ligandRingDataOf :: "AtomData list list \<Rightarrow> LigandRing list" where
  "ligandRingDataOf ligandRings =
     map (\<lambda>ring. \<lparr>center = getCenter ring, normal = getPlaneNormal ring, ring_atoms = ring\<rparr>)
         ligandRings"

record Detection =
  detected :: "Interaction list"
  idCounter :: nat

definition pushInteraction :: "string \<Rightarrow> InteractionType \<Rightarrow> real \<Rightarrow> AtomData \<Rightarrow> AtomData
    \<Rightarrow> real option \<Rightarrow> Detection \<Rightarrow> Detection" where
  "pushInteraction prefix t d lAtom pAtom ang st =
     \<lparr>detected = detected st @
        [\<lparr>id_of = prefix @ ''-'' @ showNat (idCounter st), type_of = t, distance_of = d,
          ligandAtom = lAtom, proteinAtom = pAtom, angle_of = ang\<rparr>],
      idCounter = idCounter st + 1\<rparr>"

text \<open>
  The property tables are object literals, read with the residue name as the key. A
  key that the table does not have but every object inherits (\<open>constructor\<close>,
  \<open>toString\<close>, ...) gives a value that is not an array, on which the call of
  \<open>includes\<close> raises a TypeError.
\<close>

datatype tableEntry = Absent | Inherited | Names "string list"

definition objectPrototypeKeys :: "string list" where
  "objectPrototypeKeys =
     [''constructor'', ''__defineGetter__'', ''__defineSetter__'', ''hasOwnProperty'',
      ''__lookupGetter__'', ''__lookupSetter__'', ''isPrototypeOf'', ''propertyIsEnumerable'',
      ''toString'', ''valueOf'', ''__proto__'', ''toLocaleString'']"

definition tableLookup :: "(string \<times> string list) list \<Rightarrow> string \<Rightarrow> tableEntry" where
  "tableLookup tbl key =
     (case map_of tbl key of
        Some names \<Rightarrow> Names names
      | None \<Rightarrow> if key \<in> set objectPrototypeKeys then Inherited else Absent)"

fun strIncludes :: "string \<Rightarrow> string \<Rightarrow> bool" where
  "strIncludes [] needle = (needle = [])"
| "strIncludes (c # cs) needle = (take (length needle) (c # cs) = needle \<or> strIncludes cs needle)"

text \<open>A. Pi-stacking and pi-cation (protein ring against the ligand).\<close>

definition piStackingStep :: "Point3D \<Rightarrow> Vector3 \<Rightarrow> AtomData list \<Rightarrow> LigandRing \<Rightarrow> Detection \<Rightarrow> Detection" where
  "piStackingStep pCenter pNormal ringAtoms lRing st =
     (let dist = distance pCenter (center lRing)
      in if dist \<le> PI_STACKING_DIST then
           (let angle = angleBetween pNormal (normal lRing);
                isParallel = (angle < PI_STACKING_ANGLE_PARALLEL
                              \<or> angle > 180 - PI_STACKING_ANGLE_PARALLEL);
                isTShaped = (angle > PI_STACKING_ANGLE_TSHAPED \<and> angle < 120)
            in if isParallel \<or> isTShaped
               then pushInteraction ''pi'' PiStacking dist (ring_atoms lRing ! 0) (ringAtoms ! 0)
                      (Some angle) st
               else st)
         else st)"

definition ringCationStep :: "Point3D \<Rightarrow> AtomData list \<Rightarrow> AtomData \<Rightarrow> Detection \<Rightarrow> Detection" where
  "ringCationStep pCenter ringAtoms lAtom st =
     (if (element lAtom = ''N'' \<or> strIncludes (name lAtom) ''NH'')
         \<and> distance lAtom pCenter < PI_CATION_DIST
      then pushInteraction ''pic'' PiStacking (distance lAtom pCenter) lAtom (ringAtoms ! 0) None st
      else st)"

definition aromaticBlock :: "LigandRing list \<Rightarrow> AtomData list \<Rightarrow> AtomData list \<Rightarrow> tableEntry
    \<Rightarrow> Detection \<Rightarrow> error + Detection" where
  "aromaticBlock ligandRingData ligandAtoms resAtoms aromDef st =
     (case aromDef of
        Absent \<Rightarrow> Inr st
      | Inherited \<Rightarrow> Inl TypeError
      | Names names \<Rightarrow>
          (let ringAtoms = filter (\<lambda>a. name a \<in> set names) resAtoms
           in if length ringAtoms \<ge> 3 then
                (let pCenter = getCenter ringAtoms;
                     pNormal = getPlaneNormal ringAtoms;
                     st1 = fold (piStackingStep pCenter pNormal ringAtoms) ligandRingData st
                 in Inr (fold (ringCationStep pCenter ringAtoms) ligandAtoms st1))
              else Inr st))"

text \<open>B. Salt bridges and cation-pi (protein charge against the ligand).\<close>

definition cationPiStep :: "Point3D \<Rightarrow> AtomData list \<Rightarrow> LigandRing \<Rightarrow> Detection \<Rightarrow> Detection" where
  "cationPiStep pPosCenter posAtoms lRing st =
     (if distance pPosCenter (center lRing) < PI_CATION_DIST
      then pushInteraction ''pic'' PiStacking (distance pPosCenter (center lRing))
             (ring_atoms lRing ! 0) (posAtoms ! 0) None st
      else st)"

definition saltBridgePosStep :: "Point3D \<Rightarrow> AtomData list \<Rightarrow> AtomData \<Rightarrow> Detection \<Rightarrow> Detection" where
  "saltBridgePosStep pPosCenter posAtoms lAtom st =
     (if element lAtom \<in> set [''O'', ''S'', ''P''] then
        (let d = distance lAtom pPosCenter
         in if d < SALT_BRIDGE_DIST
            then pushInteraction ''sb'' SaltBridge d lAtom (posAtoms ! 0) None st
            else st)
      else st)"

definition positiveBlock :: "LigandRing list \<Rightarrow> AtomData list \<Rightarrow> AtomData list \<Rightarrow> tableEntry
    \<Rightarrow> Detection \<Rightarrow> error + Detection" where
  "positiveBlock ligandRingData ligandAtoms resAtoms posDef st =
     (case posDef of
        Absent \<Rightarrow> Inr st
      | Inherited \<Rightarrow> Inl TypeError
      | Names names \<Rightarrow>
          (let posAtoms = filter (\<lambda>a. name a \<in> set names) resAtoms
           in if length posAtoms > 0 then
                (let pPosCenter = getCenter posAtoms;
                     st1 = fold (cationPiStep pPosCenter posAtoms) ligandRingData st
                 in Inr (fold (saltBridgePosStep pPosCenter posAtoms) ligandAtoms st1))
              else Inr st))"

definition saltBridgeNegStep :: "Point3D \<Rightarrow> AtomData list \<Rightarrow> AtomData \<Rightarrow> Detection \<Rightarrow> Detection" where
  "saltBridgeNegStep pNegCenter negAtoms lAtom st =
     (if element lAtom = ''N'' \<or> strIncludes (name lAtom) ''NH'' then
        (let d = distance lAtom pNegCenter
         in if d < SALT_BRIDGE_DIST
            then pushInteraction ''sb'' SaltBridge d lAtom (negAtoms ! 0) None st
            else st)
      else st)"

definition negativeBlock :: "AtomData list \<Rightarrow> AtomData list \<Rightarrow> tableEntry
    \<Rightarrow> Detection \<Rightarrow> error + Detection" where
  "negativeBlock ligandAtoms resAtoms negDef st =
     (case negDef of
        Absent \<Rightarrow> Inr st
      | Inherited \<Rightarrow> Inl TypeError
      | Names names \<Rightarrow>
          (let negAtoms = filter (\<lambda>a. name a \<in> set names) resAtoms
           in if length negAtoms > 0 then
                (let pNegCenter = getCenter negAtoms
                 in Inr (fold (saltBridgeNegStep pNegCenter negAtoms) ligandAtoms st))
              else Inr st))"

text \<open>The callback of the loop over the residue groups; an error ends the loop.\<close>

definition residueStep :: "LigandRing list \<Rightarrow> AtomData list \<Rightarrow> AtomData list
    \<Rightarrow> Detection \<Rightarrow> error + Detection" where
  "residueStep ligandRingData ligandAtoms resAtoms st =
     (let rName = resName (resAtoms ! 0);
          aromDef = tableLookup AROMATIC_PLANES rName
      in case aromaticBlock ligandRingData ligandAtoms resAtoms aromDef st of
           Inl e \<Rightarrow> Inl e
         | Inr st1 \<Rightarrow>
             (let posDef = tableLookup POS_CHARGE_ATOMS rName;
                  negDef = tableLookup NEG_CHARGE_ATOMS rName
              in case positiveBlock ligandRingData ligandAtoms resAtoms posDef st1 of
                   Inl e \<Rightarrow> Inl e
                 | Inr st2 \<Rightarrow> negativeBlock ligandAtoms resAtoms negDef st2))"

fun forEachResidue :: "(AtomData list \<Rightarrow> Detection \<Rightarrow> error + Detection) \<Rightarrow> AtomData list list
    \<Rightarrow> Detection \<Rightarrow> error + Detection" where
  "forEachResidue f [] st = Inr st"
| "forEachResidue f (resAtoms # rest) st =
     (case f resAtoms st of Inl e \<Rightarrow> Inl e | Inr st' \<Rightarrow> forEachResidue f rest st')"

text \<open>C. Atom-atom interactions.\<close>

definition atomPairStep :: "AtomData \<Rightarrow> AtomData \<Rightarrow> Detection \<Rightarrow> Detection" where
  "atomPairStep lAtom pAtom st =
     (let dist = distance lAtom pAtom
      in if dist > max HBOND_DIST HYDROPHOBIC_DIST then st
         else
           (let st1 =
                  (if dist \<le> HBOND_DIST then
                     (let lIsDon = (element lAtom \<in> set DONORS);
                          lIsAcc = (element lAtom \<in> set ACCEPTORS);
                          pIsDon = (element pAtom \<in> set DONORS);
                          pIsAcc = (element pAtom \<in> set ACCEPTORS);
                          match1 = (lIsDon \<and> pIsAcc);
                          match2 = (lIsAcc \<and> pIsDon)
                      in if match1 \<or> match2
                         then pushInteraction ''hb'' HydrogenBond dist lAtom pAtom None st
                         else st)
                   else st);
                st2 =
                  (if toUpperCase (element lAtom) \<in> set (map codeUnits HALOGENS)
                      \<and> element pAtom \<in> set ACCEPTORS
                   then (if dist \<le> HALOGEN_DIST
                         then pushInteraction ''xb'' HalogenBond dist lAtom pAtom None st1
                         else st1)
                   else st1);
                st3 =
                  (if element lAtom = ''C'' \<and> element pAtom = ''C''
                   then (if dist \<le> HYDROPHOBIC_DIST
                         then pushInteraction ''hp'' Hydrophobic dist lAtom pAtom None st2
                         else st2)
                   else st2)
            in if toUpperCase (element lAtom) \<in> set (map codeUnits METALS)
                  \<or> toUpperCase (element pAtom) \<in> set (map codeUnits METALS)
               then (if dist \<le> METAL_DIST
                     then pushInteraction ''mt'' MetalCoordination dist lAtom pAtom None st3
                     else st3)
               else st3))"

definition atomPairLoop :: "AtomData list \<Rightarrow> AtomData list \<Rightarrow> Detection \<Rightarrow> Detection" where
  "atomPairLoop ligandAtoms relevantProteinAtoms st =
     fold (\<lambda>lAtom st. fold (\<lambda>pAtom st. atomPairStep lAtom pAtom st) relevantProteinAtoms st)
          ligandAtoms st"

text \<open>
  Everything between the coarse filter and the deduplication: the candidates found for
  the ligand atoms and the protein atoms that passed the filter.
\<close>

definition detectInteractions :: "AtomData list \<Rightarrow> AtomData list \<Rightarrow> error + Interaction list" where
  "detectInteractions ligandAtoms relevantProteinAtoms =
     (let proteinResidues = groupResidues relevantProteinAtoms;
          ligandRings = findLigandRings ligandAtoms;
          ligandRingData = ligandRingDataOf ligandRings
      in case forEachResidue (residueStep ligandRingData ligandAtoms) proteinResidues
                \<lparr>detected = [], idCounter = 0\<rparr> of
           Inl e \<Rightarrow> Inl e
         | Inr st \<Rightarrow> Inr (detected (atomPairLoop ligandAtoms relevantProteinAtoms st)))"

definition analyzeInteractions :: "Structure \<Rightarrow> ResidueOption \<Rightarrow> error + AnalysisResult" where
  "analyzeInteractions structure ligandResidue =
     (case extractAtoms structure ligandResidue of (ligandAtoms, proteinAtoms) \<Rightarrow>
        if length ligandAtoms = 0
        then Inr \<lparr>interactions = [], ligandCenter = \<lparr>x = 0, y = 0, z = 0\<rparr>\<rparr>
        else
          (let ligandCenter = getCenter ligandAtoms;
               relevantProteinAtoms =
                 filter (\<lambda>pAtom. let d = distance pAtom ligandCenter in d < 18.0) proteinAtoms
           in case detectInteractions ligandAtoms relevantProteinAtoms of
                Inl e \<Rightarrow> Inl e
              | Inr candidates \<Rightarrow>
                  Inr \<lparr>interactions = deduplicate candidates, ligandCenter = ligandCenter\<rparr>))"

text \<open>
  The same function with step 2 (the coarse filter) left out: every protein atom is
  relevant. It is what the filtered function is compared with.
\<close>

definition analyzeInteractionsUnfiltered :: "Structure \<Rightarrow> ResidueOption \<Rightarrow> error + AnalysisResult" where
  "analyzeInteractionsUnfiltered structure ligandResidue =
     (case extractAtoms structure ligandResidue of (ligandAtoms, proteinAtoms) \<Rightarrow>
        if length ligandAtoms = 0
        then Inr \<lparr>interactions = [], ligandCenter = \<lparr>x = 0, y = 0, z = 0\<rparr>\<rparr>
        else
          (let ligandCenter = getCenter ligandAtoms
           in case detectInteractions ligandAtoms proteinAtoms of
                Inl e \<Rightarrow> Inl e
              | Inr candidates \<Rightarrow>
                  Inr \<lparr>interactions = deduplicate candidates, ligandCenter = ligandCenter\<rparr>))"

section \<open>What a detected interaction records\<close>

text \<open>
  The unordered pair of atom indices of an interaction.
\<close>

definition unorderedPair :: "Interaction \<Rightarrow> nat set" where
  "unorderedPair i = {index (ligandAtom i), index (proteinAtom i)}"

text \<open>
  The atom-atom tests (block C) compare the distance between the two atoms with the
  cutoff of the type, by \<open>\<le>\<close>; the other types have no atom-atom test.
\<close>

definition atomPairType :: "InteractionType \<Rightarrow> bool" where
  "atomPairType t = (t \<in> {HydrogenBond, Hydrophobic, HalogenBond, MetalCoordination})"

definition atomPairCutoff :: "InteractionType \<Rightarrow> real" where
  "atomPairCutoff t =
     (case t of
        HydrogenBond \<Rightarrow> HBOND_DIST
      | Hydrophobic \<Rightarrow> HYDROPHOBIC_DIST
      | HalogenBond \<Rightarrow> HALOGEN_DIST
      | MetalCoordination \<Rightarrow> METAL_DIST
      | _ \<Rightarrow> 0)"

definition measuredBetweenAtoms :: "Interaction \<Rightarrow> bool" where
  "measuredBetweenAtoms i =
     (distance_of i = distance (ligandAtom i) (proteinAtom i)
      \<and> distance_of i \<le> atomPairCutoff (type_of i))"

text \<open>
  The protein atoms that pass the coarse filter of step 2, and the groups of them whose
  centroids the ring and charge tests (blocks A and B) measure from: of a residue group
  of the relevant atoms, the atoms that the table lists for the residue name. The
  aromatic rings are the groups of at least three atoms from \<open>AROMATIC_PLANES\<close>; the
  charge centres are the non-empty groups from \<open>POS_CHARGE_ATOMS\<close> or
  \<open>NEG_CHARGE_ATOMS\<close>.
\<close>

definition relevantAtoms :: "AtomData list \<Rightarrow> AtomData list \<Rightarrow> AtomData list" where
  "relevantAtoms ligandAtoms proteinAtoms =
     filter (\<lambda>pAtom. distance pAtom (getCenter ligandAtoms) < 18.0) proteinAtoms"

definition namedAtoms :: "(string \<times> string list) list \<Rightarrow> AtomData list \<Rightarrow> AtomData list option" where
  "namedAtoms tbl resAtoms =
     (case tableLookup tbl (resName (resAtoms ! 0)) of
        Names names \<Rightarrow> Some (filter (\<lambda>a. name a \<in> set names) resAtoms)
      | _ \<Rightarrow> None)"

definition aromaticRings :: "AtomData list \<Rightarrow> AtomData list list" where
  "aromaticRings relevantProteinAtoms =
     filter (\<lambda>ringAtoms. length ringAtoms \<ge> 3)
       (List.map_filter (namedAtoms AROMATIC_PLANES) (groupResidues relevantProteinAtoms))"

definition chargeCentres :: "(string \<times> string list) list \<Rightarrow> AtomData list \<Rightarrow> AtomData list list" where
  "chargeCentres tbl relevantProteinAtoms =
     filter (\<lambda>atoms. length atoms > 0)
       (List.map_filter (namedAtoms tbl) (groupResidues relevantProteinAtoms))"

text \<open>
  The two ways in which these tests measure. From the centroid of a protein group to
  the centroid of a ligand ring: the record holds the first atom of each. From the
  ligand atom to the centroid of a protein group: the record holds the ligand atom and
  the first atom of the group.
\<close>

definition centroidToRing :: "AtomData list \<Rightarrow> AtomData list \<Rightarrow> Interaction \<Rightarrow> bool" where
  "centroidToRing grp ring i =
     (proteinAtom i = grp ! 0 \<and> ligandAtom i = ring ! 0
      \<and> distance_of i = distance (getCenter grp) (getCenter ring))"

definition atomToCentroid :: "AtomData list \<Rightarrow> Interaction \<Rightarrow> bool" where
  "atomToCentroid grp i =
     (proteinAtom i = grp ! 0 \<and> distance_of i = distance (ligandAtom i) (getCenter grp))"

text \<open>
  What the ring and charge tests accept. A PiStacking record comes from an aromatic ring
  and a ligand ring whose centroids are at most \<open>PI_STACKING_DIST\<close> apart, or from an
  aromatic ring whose centroid is less than \<open>PI_CATION_DIST\<close> from the ligand atom, or
  from a positive charge centre whose centroid is less than \<open>PI_CATION_DIST\<close> from the
  centroid of a ligand ring. A SaltBridge record comes from a positive or negative
  charge centre whose centroid is less than \<open>SALT_BRIDGE_DIST\<close> from the ligand atom.
\<close>

definition measuredFromCentroid :: "AtomData list \<Rightarrow> AtomData list \<Rightarrow> Interaction \<Rightarrow> bool" where
  "measuredFromCentroid ligandAtoms relevantProteinAtoms i =
     (let rings = findLigandRings ligandAtoms;
          aromatic = aromaticRings relevantProteinAtoms;
          positive = chargeCentres POS_CHARGE_ATOMS relevantProteinAtoms;
          negative = chargeCentres NEG_CHARGE_ATOMS relevantProteinAtoms
      in case type_of i of
           PiStacking \<Rightarrow>
             (\<exists>grp \<in> set aromatic. \<exists>ring \<in> set rings.
                 centroidToRing grp ring i \<and> distance_of i \<le> PI_STACKING_DIST)
             \<or> (\<exists>grp \<in> set aromatic. atomToCentroid grp i \<and> distance_of i < PI_CATION_DIST)
             \<or> (\<exists>grp \<in> set positive. \<exists>ring \<in> set rings.
                   centroidToRing grp ring i \<and> distance_of i < PI_CATION_DIST)
         | SaltBridge \<Rightarrow>
             (\<exists>grp \<in> set (positive @ negative).
                 atomToCentroid grp i \<and> distance_of i < SALT_BRIDGE_DIST)
         | _ \<Rightarrow> False)"

text \<open>
  Every record the detection produces holds a ligand atom and a relevant protein atom,
  and its distance was measured and tested in one of these ways.
\<close>

definition accepted :: "AtomData list \<Rightarrow> AtomData list \<Rightarrow> Interaction \<Rightarrow> bool" where
  "accepted ligandAtoms relevantProteinAtoms i =
     (ligandAtom i \<in> set ligandAtoms \<and> proteinAtom i \<in> set relevantProteinAtoms
      \<and> (if atomPairType (type_of i) then measuredBetweenAtoms i
           else measuredFromCentroid ligandAtoms relevantProteinAtoms i))"

section \<open>Example structures\<close>

text \<open>
  A ligand of one nitrogen atom next to the carboxylate of an aspartate: the nitrogen is
  3 \<AA> from OD1 and the two oxygens are 2 \<AA> apart.
\<close>

definition exLig :: ResidueOption where
  "exLig = \<lparr>ro_resName = ''LIG'', ro_resNo = 301, ro_chain = ''A'', ro_atomCount = 1\<rparr>"

definition exAbsentLig :: ResidueOption where
  "exAbsentLig = \<lparr>ro_resName = ''LIG'', ro_resNo = 999, ro_chain = ''A'', ro_atomCount = 1\<rparr>"

definition exAspStructure :: Structure where
  "exAspStructure =
     \<lparr>eachAtom =
        [\<lparr>x = 3, y = 0, z = 0, ap_index = 0, ap_atomname = ''OD1'', ap_element = ''O'',
          ap_resname = ''ASP'', ap_resno = 25, ap_chainname = ''A'', ap_isHetero = False\<rparr>,
         \<lparr>x = 3, y = 2, z = 0, ap_index = 1, ap_atomname = ''OD2'', ap_element = ''O'',
          ap_resname = ''ASP'', ap_resno = 25, ap_chainname = ''A'', ap_isHetero = False\<rparr>,
         \<lparr>x = 0, y = 0, z = 0, ap_index = 2, ap_atomname = ''N1'', ap_element = ''N'',
          ap_resname = ''LIG'', ap_resno = 301, ap_chainname = ''A'', ap_isHetero = True\<rparr>],
      eachResidue =
        [\<lparr>rp_resname = ''ASP'', rp_resno = 25, rp_chainname = ''A'', rp_atomCount = 2,
          rp_isHetero = False\<rparr>,
         \<lparr>rp_resname = ''LIG'', rp_resno = 301, rp_chainname = ''A'', rp_atomCount = 1,
          rp_isHetero = True\<rparr>]\<rparr>"

definition aOD1 :: AtomData where
  "aOD1 = \<lparr>x = 3, y = 0, z = 0, index = 0, name = ''OD1'', element = ''O'',
           resName = ''ASP'', resNo = 25, chain = ''A'', isHet = False\<rparr>"

definition aOD2 :: AtomData where
  "aOD2 = \<lparr>x = 3, y = 2, z = 0, index = 1, name = ''OD2'', element = ''O'',
           resName = ''ASP'', resNo = 25, chain = ''A'', isHet = False\<rparr>"

definition aN1 :: AtomData where
  "aN1 = \<lparr>x = 0, y = 0, z = 0, index = 2, name = ''N1'', element = ''N'',
          resName = ''LIG'', resNo = 301, chain = ''A'', isHet = True\<rparr>"

definition exAspSaltBridge :: Interaction where
  "exAspSaltBridge =
     \<lparr>id_of = ''sb-0'', type_of = SaltBridge, distance_of = distance aN1 (getCenter [aOD1, aOD2]),
      ligandAtom = aN1, proteinAtom = aOD1, angle_of = None\<rparr>"

definition exAspHydrogenBond :: Interaction where
  "exAspHydrogenBond =
     \<lparr>id_of = ''hb-1'', type_of = HydrogenBond, distance_of = distance aN1 aOD1,
      ligandAtom = aN1, proteinAtom = aOD1, angle_of = None\<rparr>"

text \<open>
  A ligand oxygen 3 \<AA> from the backbone nitrogen of an alanine (a hydrogen bond by the
  element test).
\<close>

definition exHBondStructure :: Structure where
  "exHBondStructure =
     \<lparr>eachAtom =
        [\<lparr>x = 0, y = 0, z = 3, ap_index = 0, ap_atomname = ''N'', ap_element = ''N'',
          ap_resname = ''ALA'', ap_resno = 10, ap_chainname = ''A'', ap_isHetero = False\<rparr>,
         \<lparr>x = 0, y = 0, z = 0, ap_index = 1, ap_atomname = ''O1'', ap_element = ''O'',
          ap_resname = ''LIG'', ap_resno = 301, ap_chainname = ''A'', ap_isHetero = True\<rparr>],
      eachResidue =
        [\<lparr>rp_resname = ''ALA'', rp_resno = 10, rp_chainname = ''A'', rp_atomCount = 1,
          rp_isHetero = False\<rparr>,
         \<lparr>rp_resname = ''LIG'', rp_resno = 301, rp_chainname = ''A'', rp_atomCount = 1,
          rp_isHetero = True\<rparr>]\<rparr>"

definition bN :: AtomData where
  "bN = \<lparr>x = 0, y = 0, z = 3, index = 0, name = ''N'', element = ''N'',
         resName = ''ALA'', resNo = 10, chain = ''A'', isHet = False\<rparr>"

definition bO1 :: AtomData where
  "bO1 = \<lparr>x = 0, y = 0, z = 0, index = 1, name = ''O1'', element = ''O'',
          resName = ''LIG'', resNo = 301, chain = ''A'', isHet = True\<rparr>"

definition exHBond :: Interaction where
  "exHBond =
     \<lparr>id_of = ''hb-0'', type_of = HydrogenBond, distance_of = distance bO1 bN,
      ligandAtom = bO1, proteinAtom = bN, angle_of = None\<rparr>"

text \<open>
  A long ligand: two oxygens of one residue 40 \<AA> apart, so that the centroid is 20 \<AA>
  from each; a backbone nitrogen lies 3 \<AA> from the first oxygen and 23 \<AA> from the
  centroid.
\<close>

definition exLongLigandStructure :: Structure where
  "exLongLigandStructure =
     \<lparr>eachAtom =
        [\<lparr>x = - 3, y = 0, z = 0, ap_index = 0, ap_atomname = ''N'', ap_element = ''N'',
          ap_resname = ''ALA'', ap_resno = 10, ap_chainname = ''A'', ap_isHetero = False\<rparr>,
         \<lparr>x = 0, y = 0, z = 0, ap_index = 1, ap_atomname = ''O1'', ap_element = ''O'',
          ap_resname = ''LIG'', ap_resno = 301, ap_chainname = ''A'', ap_isHetero = True\<rparr>,
         \<lparr>x = 40, y = 0, z = 0, ap_index = 2, ap_atomname = ''O2'', ap_element = ''O'',
          ap_resname = ''LIG'', ap_resno = 301, ap_chainname = ''A'', ap_isHetero = True\<rparr>],
      eachResidue =
        [\<lparr>rp_resname = ''ALA'', rp_resno = 10, rp_chainname = ''A'', rp_atomCount = 1,
          rp_isHetero = False\<rparr>,
         \<lparr>rp_resname = ''LIG'', rp_resno = 301, rp_chainname = ''A'', rp_atomCount = 2,
          rp_isHetero = True\<rparr>]\<rparr>"

definition cN :: AtomData where
  "cN = \<lparr>x = - 3, y = 0, z = 0, index = 0, name = ''N'', element = ''N'',
         resName = ''ALA'', resNo = 10, chain = ''A'', isHet = False\<rparr>"

definition cO1 :: AtomData where
  "cO1 = \<lparr>x = 0, y = 0, z = 0, index = 1, name = ''O1'', element = ''O'',
          resName = ''LIG'', resNo = 301, chain = ''A'', isHet = True\<rparr>"

definition cO2 :: AtomData where
  "cO2 = \<lparr>x = 40, y = 0, z = 0, index = 2, name = ''O2'', element = ''O'',
          resName = ''LIG'', resNo = 301, chain = ''A'', isHet = True\<rparr>"

definition exLongHBond :: Interaction where
  "exLongHBond =
     \<lparr>id_of = ''hb-0'', type_of = HydrogenBond, distance_of = distance cO1 cN,
      ligandAtom = cO1, proteinAtom = cN, angle_of = None\<rparr>"

text \<open>
  A six-membered carbon ring as the ligand (a planar hexagon of radius 1.4 \<AA> around the
  origin), and a phenylalanine of which only CG, CD1 and CD2 are present, on one line,
  5 \<AA> above the ring: the three points \<open>getPlaneNormal\<close> reads are collinear.
\<close>

definition ringAtom :: "nat \<Rightarrow> string \<Rightarrow> real \<Rightarrow> real \<Rightarrow> AtomData" where
  "ringAtom i n px py =
     \<lparr>x = px, y = py, z = 0, index = i, name = n, element = ''C'',
      resName = ''BNZ'', resNo = 301, chain = ''A'', isHet = True\<rparr>"

definition hexAtoms :: "AtomData list" where
  "hexAtoms =
     [ringAtom 0 ''C1'' 1.4 0, ringAtom 1 ''C2'' 0.7 1.2, ringAtom 2 ''C3'' (- 0.7) 1.2,
      ringAtom 3 ''C4'' (- 1.4) 0, ringAtom 4 ''C5'' (- 0.7) (- 1.2), ringAtom 5 ''C6'' 0.7 (- 1.2)]"

definition pheAtom :: "nat \<Rightarrow> string \<Rightarrow> real \<Rightarrow> AtomData" where
  "pheAtom i n px =
     \<lparr>x = px, y = 0, z = 5, index = i, name = n, element = ''C'',
      resName = ''PHE'', resNo = 50, chain = ''A'', isHet = False\<rparr>"

definition pheAtoms :: "AtomData list" where
  "pheAtoms = [pheAtom 6 ''CG'' (- 1.4), pheAtom 7 ''CD1'' 0, pheAtom 8 ''CD2'' 1.4]"

definition toProxy :: "AtomData \<Rightarrow> AtomProxy" where
  "toProxy a =
     \<lparr>x = x a, y = y a, z = z a, ap_index = index a, ap_atomname = name a,
      ap_element = element a, ap_resname = resName a, ap_resno = resNo a,
      ap_chainname = chain a, ap_isHetero = isHet a\<rparr>"

definition exRingStructure :: Structure where
  "exRingStructure =
     \<lparr>eachAtom = map toProxy (hexAtoms @ pheAtoms),
      eachResidue =
        [\<lparr>rp_resname = ''BNZ'', rp_resno = 301, rp_chainname = ''A'', rp_atomCount = 6,
          rp_isHetero = True\<rparr>,
         \<lparr>rp_resname = ''PHE'', rp_resno = 50, rp_chainname = ''A'', rp_atomCount = 3,
          rp_isHetero = False\<rparr>]\<rparr>"

definition exRingLig :: ResidueOption where
  "exRingLig = \<lparr>ro_resName = ''BNZ'', ro_resNo = 301, ro_chain = ''A'', ro_atomCount = 6\<rparr>"

definition exDegeneratePi :: Interaction where
  "exDegeneratePi =
     \<lparr>id_of = ''pi-0'', type_of = PiStacking,
      distance_of = distance (getCenter pheAtoms) (getCenter hexAtoms),
      ligandAtom = hexAtoms ! 0, proteinAtom = pheAtoms ! 0, angle_of = Some 0\<rparr>"

section \<open>Geometry kernel: degenerate inputs\<close>

lemma mag_zero_iff: "mag v = 0 \<longleftrightarrow> x v = 0 \<and> y v = 0 \<and> z v = 0"
proof -
  have "x v * x v + y v * y v + z v * z v = 0 \<longleftrightarrow> x v = 0 \<and> y v = 0 \<and> z v = 0"
    by (smt (verit) zero_le_square mult_eq_0_iff add_nonneg_eq_0_iff add_nonneg_nonneg)
  then show ?thesis
    by (simp add: mag_def)
qed

lemma mag_zero_vector: "mag \<lparr>x = 0, y = 0, z = 0\<rparr> = 0"
  by (simp add: mag_def)

text \<open>
  C10. \<open>angleBetween\<close> returns 0 whenever either vector has zero magnitude;
  \<open>normalize\<close> returns the zero vector for a zero-magnitude input; and so the normal
  that \<open>getPlaneNormal\<close> computes from three collinear (or coincident) points, whose
  cross product is the zero vector, is the zero vector and has angle 0 to every
  vector.
\<close>

theorem degenerate_angle_is_zero:
  "(mag v1 = 0 \<or> mag v2 = 0 \<longrightarrow> angleBetween v1 v2 = 0)
   \<and> (mag v = 0 \<longrightarrow> normalize_v v = \<lparr>x = 0, y = 0, z = 0\<rparr>)
   \<and> (3 \<le> length atoms
        \<and> mag (cross (sub (atoms ! (length atoms div 2)) (atoms ! 0))
                      (sub (atoms ! (length atoms - 1)) (atoms ! 0))) = 0
      \<longrightarrow> getPlaneNormal atoms = \<lparr>x = 0, y = 0, z = 0\<rparr>
          \<and> angleBetween (getPlaneNormal atoms) w = 0
          \<and> angleBetween w (getPlaneNormal atoms) = 0)"
  by (simp add: angleBetween_def normalize_v_def getPlaneNormal_def Let_def mag_zero_vector)

theorem degenerate_angle_is_zero_witness:
  "mag \<lparr>x = 0, y = 0, z = 0\<rparr> = 0
   \<and> angleBetween \<lparr>x = 0, y = 0, z = 0\<rparr> \<lparr>x = 0, y = 0, z = 1\<rparr> = 0
   \<and> normalize_v \<lparr>x = 0, y = 0, z = 0\<rparr> = \<lparr>x = 0, y = 0, z = 0\<rparr>
   \<and> getPlaneNormal [\<lparr>x = 0, y = 0, z = 0\<rparr>, \<lparr>x = 1, y = 0, z = 0\<rparr>, \<lparr>x = 2, y = 0, z = 0\<rparr>]
       = \<lparr>x = 0, y = 0, z = 0\<rparr>
   \<and> angleBetween
        (getPlaneNormal [\<lparr>x = 0, y = 0, z = 0\<rparr>, \<lparr>x = 1, y = 0, z = 0\<rparr>, \<lparr>x = 2, y = 0, z = 0\<rparr>])
        \<lparr>x = 0, y = 0, z = 1\<rparr> = 0"
proof -
  let ?o = "\<lparr>x = 0, y = 0, z = 0\<rparr> :: Point3D"
  let ?ps = "[?o, \<lparr>x = 1, y = 0, z = 0\<rparr>, \<lparr>x = 2, y = 0, z = 0\<rparr>] :: Point3D list"
  have m: "mag ?o = 0"
    by (simp add: mag_def)
  have c: "mag (cross (sub (?ps ! (length ?ps div 2)) (?ps ! 0))
                      (sub (?ps ! (length ?ps - 1)) (?ps ! 0))) = 0"
    by (simp add: mag_def cross_def sub_def)
  show ?thesis
    using m c
      degenerate_angle_is_zero [of ?o "\<lparr>x = 0, y = 0, z = 1\<rparr>" ?o ?ps "\<lparr>x = 0, y = 0, z = 1\<rparr>"]
    by simp
qed

section \<open>Case conversion and trimming\<close>

lemma letter_images: "foldUnit 83 = ''s''" "toUpperChar CHR ''s'' = [83]"
  by code_simp+

lemma char_of_code: "(of_char c :: nat) = n \<Longrightarrow> char_of n = c"
  by auto

lemma foldUnit_toUpperChar: "concat (map foldUnit (toUpperChar c)) = foldChar c"
proof -
  let ?n = "of_char c :: nat"
  have b: "?n < 256" by simp
  consider "?n = 223" | "?n = 181" | "?n = 255"
    | "?n \<noteq> 223" "?n \<noteq> 181" "?n \<noteq> 255" "isLowerCode ?n"
    | "?n \<noteq> 223" "?n \<noteq> 181" "?n \<noteq> 255" "\<not> isLowerCode ?n"
    by blast
  then show ?thesis
  proof cases
    case 1
    then have "toUpperChar c = [83, 83]" "foldChar c = ''ss''"
      by (simp_all add: toUpperChar_def foldChar_def Let_def)
    then show ?thesis by (simp add: letter_images)
  next
    case 2
    then have "toUpperChar c = [924]" "foldChar c = [c]"
      by (simp_all add: toUpperChar_def foldChar_def Let_def isUpperCode_def)
    then show ?thesis by (simp add: foldUnit_def char_of_code [OF 2])
  next
    case 3
    then have "toUpperChar c = [376]" "foldChar c = [c]"
      by (simp_all add: toUpperChar_def foldChar_def Let_def isUpperCode_def)
    then show ?thesis by (simp add: foldUnit_def char_of_code [OF 3])
  next
    case 4
    from 4(4) have r: "32 \<le> ?n" "?n - 32 \<noteq> 223" "isUpperCode (?n - 32)" "\<not> isUpperCode ?n"
      "?n - 32 + 32 = ?n"
      by (auto simp: isLowerCode_def isUpperCode_def)
    from b have small: "?n - 32 \<noteq> 924" "?n - 32 \<noteq> 376" by arith+
    from b have "?n - 32 < 256" by arith
    then have e: "(of_char (char_of (?n - 32) :: char) :: nat) = ?n - 32"
      by simp
    have "toUpperChar c = [?n - 32]"
      using 4 by (simp add: toUpperChar_def Let_def)
    moreover have "foldChar (char_of (?n - 32)) = [char_of (?n - 32 + 32)]"
      unfolding foldChar_def Let_def e using r(2,3) by simp
    moreover have "foldChar c = [c]"
      using 4(1) r(4) by (simp add: foldChar_def Let_def)
    ultimately show ?thesis using small by (simp add: foldUnit_def r(5))
  next
    case 5
    from b have "?n \<noteq> 924" "?n \<noteq> 376" by arith+
    with 5 show ?thesis by (simp add: toUpperChar_def Let_def foldUnit_def)
  qed
qed

lemma toUpperCase_foldChar: "concat (map toUpperChar (foldChar c)) = toUpperChar c"
proof -
  let ?n = "of_char c :: nat"
  consider "?n = 223" | "?n \<noteq> 223" "isUpperCode ?n" | "?n \<noteq> 223" "\<not> isUpperCode ?n"
    by blast
  then show ?thesis
  proof cases
    case 1
    then have "toUpperChar c = [83, 83]" "foldChar c = ''ss''"
      by (simp_all add: toUpperChar_def foldChar_def Let_def)
    then show ?thesis by (simp add: letter_images)
  next
    case 2
    from 2(2) have r: "?n < 224" "?n + 32 \<noteq> 223" "?n + 32 \<noteq> 181" "?n + 32 \<noteq> 255"
      "isLowerCode (?n + 32)" "\<not> isLowerCode ?n" "?n \<noteq> 181" "?n \<noteq> 255"
      by (auto simp: isLowerCode_def isUpperCode_def)
    have e: "(of_char (char_of (?n + 32) :: char) :: nat) = ?n + 32"
      using r(1) by simp
    have "foldChar c = [char_of (?n + 32)]"
      using 2 by (simp add: foldChar_def Let_def)
    moreover have "toUpperChar (char_of (?n + 32)) = [?n]"
      unfolding toUpperChar_def Let_def e using r(2-5) by simp
    moreover have "toUpperChar c = [?n]"
      using 2(1) r(6-8) by (simp add: toUpperChar_def Let_def)
    ultimately show ?thesis by simp
  next
    case 3
    then show ?thesis by (simp add: foldChar_def Let_def)
  qed
qed

lemma concat_map_concat_map:
  "concat (map g (concat (map f s))) = concat (map (\<lambda>c. concat (map g (f c))) s)"
  by (induction s) simp_all

lemma foldUnit_toUpperCase: "concat (map foldUnit (toUpperCase s)) = foldCase s"
  by (simp add: foldCase_def toUpperCase_def concat_map_concat_map foldUnit_toUpperChar)

lemma toUpperCase_foldCase: "toUpperCase (foldCase s) = toUpperCase s"
  by (simp add: foldCase_def toUpperCase_def concat_map_concat_map toUpperCase_foldChar)

lemma toUpperCase_eq_iff: "toUpperCase a = toUpperCase b \<longleftrightarrow> equalsIgnoreCase a b"
proof
  assume "toUpperCase a = toUpperCase b"
  then have "concat (map foldUnit (toUpperCase a)) = concat (map foldUnit (toUpperCase b))"
    by simp
  then show "equalsIgnoreCase a b"
    by (simp add: foldUnit_toUpperCase equalsIgnoreCase_def)
next
  assume "equalsIgnoreCase a b"
  then have "toUpperCase (foldCase a) = toUpperCase (foldCase b)"
    by (simp add: equalsIgnoreCase_def)
  then show "toUpperCase a = toUpperCase b"
    by (simp add: toUpperCase_foldCase)
qed

text \<open>
  A conversion that turns a white space character into one white space code unit, and
  every other character into a non-empty list without white space, commutes with
  dropping leading white space.
\<close>

lemma dropWhile_concat_map:
  assumes ws: "\<And>c. W c \<Longrightarrow> \<exists>x. u c = [x] \<and> W' x"
    and nws: "\<And>c. \<not> W c \<Longrightarrow> u c \<noteq> [] \<and> (\<forall>d \<in> set (u c). \<not> W' d)"
  shows "dropWhile W' (concat (map u s)) = concat (map u (dropWhile W s))"
proof (induction s)
  case Nil
  show ?case by simp
next
  case (Cons c s)
  show ?case
  proof (cases "W c")
    case True
    from ws [OF True] obtain x where "u c = [x]" "W' x" by blast
    with True Cons show ?thesis by simp
  next
    case False
    from nws [OF False] obtain h t where ht: "u c = h # t" "\<not> W' h"
      by (cases "u c") auto
    with False show ?thesis by simp
  qed
qed

lemma toUpperChar_whiteSpace:
  assumes "isSpaceChar c"
  shows "toUpperChar c = [of_char c] \<and> isWhiteSpace (of_char c)"
proof -
  from assms have m: "(of_char c :: nat) \<in> {9, 10, 11, 12, 13, 32, 160}"
    by (simp add: isSpaceChar_def)
  then have "toUpperChar c = [of_char c]"
    by (auto simp: toUpperChar_def Let_def isLowerCode_def)
  moreover from m have "isWhiteSpace (of_char c)"
    by (auto simp: isWhiteSpace_def)
  ultimately show ?thesis by simp
qed

lemma toUpperChar_no_whiteSpace:
  assumes "\<not> isSpaceChar c"
  shows "toUpperChar c \<noteq> [] \<and> (\<forall>d \<in> set (toUpperChar c). \<not> isWhiteSpace d)"
proof -
  let ?n = "of_char c :: nat"
  have b: "?n < 256" by simp
  have latin: "isWhiteSpace k \<longleftrightarrow> k \<in> {9, 10, 11, 12, 13, 32, 160}" if "k < 256" for k
    using that by (auto simp: isWhiteSpace_def)
  consider "?n = 223" | "?n = 181" | "?n = 255"
    | "?n \<noteq> 223" "?n \<noteq> 181" "?n \<noteq> 255" "isLowerCode ?n"
    | "?n \<noteq> 223" "?n \<noteq> 181" "?n \<noteq> 255" "\<not> isLowerCode ?n"
    by blast
  then show ?thesis
  proof cases
    case 1
    then show ?thesis by (simp add: toUpperChar_def Let_def isWhiteSpace_def)
  next
    case 2
    then show ?thesis by (simp add: toUpperChar_def Let_def isWhiteSpace_def)
  next
    case 3
    then show ?thesis by (simp add: toUpperChar_def Let_def isWhiteSpace_def)
  next
    case 4
    from 4(4) have "?n - 32 \<notin> {9, 10, 11, 12, 13, 32, 160}"
      by (auto simp: isLowerCode_def)
    moreover from b have "?n - 32 < 256" by arith
    ultimately have "\<not> isWhiteSpace (?n - 32)" using latin [of "?n - 32"] by blast
    with 4 show ?thesis by (simp add: toUpperChar_def Let_def)
  next
    case 5
    from assms have "?n \<notin> {9, 10, 11, 12, 13, 32, 160}" by (simp add: isSpaceChar_def)
    with b have "\<not> isWhiteSpace ?n" using latin [of ?n] by blast
    with 5 show ?thesis by (simp add: toUpperChar_def Let_def)
  qed
qed

lemma trim_toUpperCase: "trim (toUpperCase s) = toUpperCase (trimmed s)"
proof -
  let ?r = "\<lambda>c. rev (toUpperChar c)"
  have front: "dropWhile isWhiteSpace (concat (map toUpperChar t))
               = concat (map toUpperChar (dropWhile isSpaceChar t))" for t
    by (rule dropWhile_concat_map) (simp_all add: toUpperChar_whiteSpace toUpperChar_no_whiteSpace)
  have trail: "dropWhile isWhiteSpace (concat (map ?r t))
               = concat (map ?r (dropWhile isSpaceChar t))" for t
    by (rule dropWhile_concat_map) (simp_all add: toUpperChar_whiteSpace toUpperChar_no_whiteSpace)
  have rv: "rev (concat (map toUpperChar t)) = concat (map ?r (rev t))" for t
    by (simp add: rev_concat rev_map comp_def)
  have rv': "rev (concat (map ?r t)) = concat (map toUpperChar (rev t))" for t
    by (simp add: rev_concat rev_map comp_def)
  show ?thesis
    by (simp only: trim_def trimmed_def toUpperCase_def front rv trail rv')
qed

section \<open>Residue lookup by name\<close>

lemma findResidueStep_Some: "findResidueStep q rp (Some v) = Some v"
  by (simp add: findResidueStep_def)

lemma findResidueStep_None:
  "findResidueStep q rp None
   = (if toUpperCase (rp_resname rp) = q then Some (toResidueOption rp) else None)"
  by (simp add: findResidueStep_def)

lemma findResidue_fold_Some: "fold (findResidueStep q) rs (Some v) = Some v"
  by (induction rs) (simp_all add: findResidueStep_Some)

lemma findResidue_fold_None:
  "fold (findResidueStep q) rs None
   = map_option toResidueOption (find (\<lambda>rp. toUpperCase (rp_resname rp) = q) rs)"
  by (induction rs) (simp_all add: findResidueStep_None findResidue_fold_Some)

text \<open>
  C8. For every structure and query name, \<open>findResidueByName\<close> returns the first residue
  in traversal order whose name equals the trimmed query case-insensitively, and returns
  no result when no residue matches. (The query is trimmed; the residue name is compared
  as the structure gives it.)
\<close>

theorem findResidueByName_first_match:
  "findResidueByName structure queryName = firstResidueNamed structure queryName
   \<and> ((\<forall>rp \<in> set (eachResidue structure). \<not> equalsIgnoreCase (rp_resname rp) (trimmed queryName))
        \<longrightarrow> findResidueByName structure queryName = None)"
proof -
  have eq: "(\<lambda>rp. toUpperCase (rp_resname rp) = trim (toUpperCase queryName))
            = (\<lambda>rp. equalsIgnoreCase (rp_resname rp) (trimmed queryName))"
    by (rule ext) (simp add: trim_toUpperCase toUpperCase_eq_iff)
  have main: "findResidueByName structure queryName = firstResidueNamed structure queryName"
    unfolding findResidueByName_def firstResidueNamed_def Let_def
    by (simp add: findResidue_fold_None eq split: option.splits)
  moreover have "firstResidueNamed structure queryName = None"
    if "\<forall>rp \<in> set (eachResidue structure). \<not> equalsIgnoreCase (rp_resname rp) (trimmed queryName)"
    using that by (simp add: firstResidueNamed_def find_None_iff split: option.splits)
  ultimately show ?thesis by simp
qed

theorem findResidueByName_first_match_witness:
  "findResidueByName exampleResidues '' lig  ''
     = Some \<lparr>ro_resName = ''Lig'', ro_resNo = 301, ro_chain = ''A'', ro_atomCount = 20\<rparr>
   \<and> findResidueByName exampleResidues [CHR 0xC9, CHR ''T'', CHR ''1'']
       = Some \<lparr>ro_resName = [CHR 0xE9, CHR ''t'', CHR ''1''], ro_resNo = 303, ro_chain = ''B'',
               ro_atomCount = 9\<rparr>
   \<and> findResidueByName exampleResidues [CHR 0xDF]
       = Some \<lparr>ro_resName = ''SS'', ro_resNo = 304, ro_chain = ''B'', ro_atomCount = 2\<rparr>
   \<and> findResidueByName exampleResidues ''XYZ'' = None"
proof -
  have a: "firstResidueNamed exampleResidues '' lig  ''
           = Some \<lparr>ro_resName = ''Lig'', ro_resNo = 301, ro_chain = ''A'', ro_atomCount = 20\<rparr>"
    by code_simp
  have a2: "firstResidueNamed exampleResidues [CHR 0xC9, CHR ''T'', CHR ''1'']
       = Some \<lparr>ro_resName = [CHR 0xE9, CHR ''t'', CHR ''1''], ro_resNo = 303, ro_chain = ''B'',
               ro_atomCount = 9\<rparr>"
    by code_simp
  have a3: "firstResidueNamed exampleResidues [CHR 0xDF]
       = Some \<lparr>ro_resName = ''SS'', ro_resNo = 304, ro_chain = ''B'', ro_atomCount = 2\<rparr>"
    by code_simp
  have b: "\<forall>rp \<in> set (eachResidue exampleResidues). \<not> equalsIgnoreCase (rp_resname rp) (trimmed ''XYZ'')"
    by code_simp
  have c: "findResidueByName exampleResidues q = firstResidueNamed exampleResidues q" for q
    using findResidueByName_first_match [of exampleResidues q] by (rule conjunct1)
  have d: "findResidueByName exampleResidues ''XYZ'' = None"
    using findResidueByName_first_match [of exampleResidues "''XYZ''"] b by blast
  from a a2 a3 d show ?thesis
    by (simp only: c simp_thms)
qed

section \<open>Decimal notation is injective\<close>

lemma decimalDigits_distinct: "distinct decimalDigits"
  by code_simp

lemma decimalDigits_length: "length decimalDigits = 10"
  by (simp add: decimalDigits_def)

lemma dash_not_digit: "CHR ''-'' \<notin> set decimalDigits"
  by code_simp

lemma digitChar_inj: "a < 10 \<Longrightarrow> b < 10 \<Longrightarrow> digitChar a = digitChar b \<Longrightarrow> a = b"
proof -
  assume ab: "a < 10" "b < 10" and eq: "digitChar a = digitChar b"
  have "(decimalDigits ! a = decimalDigits ! b) = (a = b)"
    by (rule nth_eq_iff_index_eq [OF decimalDigits_distinct]) (simp_all add: ab decimalDigits_length)
  with eq show "a = b"
    by (simp add: digitChar_def)
qed

lemma digitChar_in_digits: "d < 10 \<Longrightarrow> digitChar d \<in> set decimalDigits"
  unfolding digitChar_def by (rule nth_mem) (simp add: decimalDigits_length)

declare showNat.simps [simp del]

lemma showNat_not_Nil: "showNat n \<noteq> []"
  by (subst showNat.simps) simp

lemma showNat_digits: "set (showNat n) \<subseteq> set decimalDigits"
proof (induction n rule: showNat.induct)
  case (1 n)
  show ?case
  proof (cases "n < 10")
    case True
    then show ?thesis
      using digitChar_in_digits [of n] by (subst showNat.simps) simp
  next
    case False
    have "n mod 10 < 10" by simp
    then have "digitChar (n mod 10) \<in> set decimalDigits" by (rule digitChar_in_digits)
    with False 1 show ?thesis
      by (subst showNat.simps) simp
  qed
qed

lemma showNat_inj: "showNat n = showNat m \<Longrightarrow> n = m"
proof (induction n arbitrary: m rule: showNat.induct)
  case (1 n)
  show ?case
  proof (cases "n < 10")
    case nS: True
    show ?thesis
    proof (cases "m < 10")
      case True
      with nS "1.prems" show ?thesis
        by (simp add: showNat.simps [of n] showNat.simps [of m] digitChar_inj)
    next
      case False
      with nS "1.prems" showNat_not_Nil [of "m div 10"] show ?thesis
        by (simp add: showNat.simps [of n] showNat.simps [of m])
    qed
  next
    case nL: False
    show ?thesis
    proof (cases "m < 10")
      case True
      with nL "1.prems" showNat_not_Nil [of "n div 10"] show ?thesis
        by (simp add: showNat.simps [of n] showNat.simps [of m])
    next
      case False
      with nL "1.prems" have eqs: "showNat (n div 10) = showNat (m div 10)"
        "digitChar (n mod 10) = digitChar (m mod 10)"
        by (simp_all add: showNat.simps [of n] showNat.simps [of m])
      from "1.IH" [OF nL eqs(1)] have "n div 10 = m div 10" .
      moreover from eqs(2) have "n mod 10 = m mod 10"
        by (intro digitChar_inj) simp_all
      ultimately show ?thesis
        by (metis div_mult_mod_eq)
    qed
  qed
qed

lemma dash_not_in_showNat: "CHR ''-'' \<notin> set (showNat n)"
  using showNat_digits [of n] dash_not_digit by blast

lemma pairKey_eq_iff: "pairKey a = pairKey b \<longleftrightarrow> pairOf a = pairOf b"
proof
  assume "pairKey a = pairKey b"
  then have "showNat (index (ligandAtom a)) = showNat (index (ligandAtom b))
             \<and> showNat (index (proteinAtom a)) = showNat (index (proteinAtom b))"
    unfolding pairKey_def
    by (simp add: append_Cons_eq_iff dash_not_in_showNat)
  then show "pairOf a = pairOf b"
    by (simp add: pairOf_def showNat_inj)
next
  assume "pairOf a = pairOf b"
  then show "pairKey a = pairKey b"
    by (simp add: pairOf_def pairKey_def)
qed

section \<open>Deduplication: one key at a time\<close>

lemma map_of_dedupStep:
  "map_of (dedupStep i M) k = (if k = pairKey i then better i (map_of M k) else map_of M k)"
  by (simp add: dedupStep_def better_def Let_def update_conv' split: option.splits)

lemma map_of_fold_dedupStep:
  "map_of (fold dedupStep cs M) k = fold better (filter (\<lambda>c. pairKey c = k) cs) (map_of M k)"
proof (induction cs arbitrary: M)
  case Nil
  show ?case by simp
next
  case (Cons c cs)
  show ?case
    by (simp add: Cons.IH map_of_dedupStep)
qed

lemma distinct_dedupStep: "distinct (map fst M) \<Longrightarrow> distinct (map fst (dedupStep i M))"
  by (simp add: dedupStep_def Let_def distinct_update split: option.splits)

lemma distinct_fold_dedupStep:
  "distinct (map fst M) \<Longrightarrow> distinct (map fst (fold dedupStep cs M))"
  by (induction cs arbitrary: M) (simp_all add: distinct_dedupStep)

lemma fold_better_Some:
  "\<exists>w. fold better cs (Some e) = Some w
       \<and> w \<in> set (e # cs)
       \<and> (\<forall>c \<in> set (e # cs). typeScore (type_of c) \<le> typeScore (type_of w))
       \<and> find (\<lambda>c. typeScore (type_of w) \<le> typeScore (type_of c)) (e # cs) = Some w"
proof (induction cs arbitrary: e)
  case Nil
  show ?case by simp
next
  case (Cons a cs)
  let ?e' = "if typeScore (type_of a) > typeScore (type_of e) then a else e"
  have step: "fold better (a # cs) (Some e) = fold better cs (Some ?e')"
    by (simp add: better_def)
  from Cons.IH [of ?e'] obtain w where w: "fold better cs (Some ?e') = Some w"
    "w \<in> set (?e' # cs)"
    "\<forall>c \<in> set (?e' # cs). typeScore (type_of c) \<le> typeScore (type_of w)"
    "find (\<lambda>c. typeScore (type_of w) \<le> typeScore (type_of c)) (?e' # cs) = Some w"
    by blast
  have mem: "w \<in> set (e # a # cs)"
    using w(2) by (auto split: if_splits)
  have mx: "\<forall>c \<in> set (e # a # cs). typeScore (type_of c) \<le> typeScore (type_of w)"
    using w(3) by (auto split: if_splits)
  have fnd: "find (\<lambda>c. typeScore (type_of w) \<le> typeScore (type_of c)) (e # a # cs) = Some w"
  proof (cases "typeScore (type_of a) > typeScore (type_of e)")
    case True
    with w(3) have "typeScore (type_of e) < typeScore (type_of w)" by auto
    with True w(4) show ?thesis by simp
  next
    case False
    show ?thesis
    proof (cases "typeScore (type_of w) \<le> typeScore (type_of e)")
      case True
      with False w(4) show ?thesis by simp
    next
      case lt: False
      with False have "\<not> typeScore (type_of w) \<le> typeScore (type_of a)" by simp
      with False lt w(4) show ?thesis by simp
    qed
  qed
  from step w(1) mem mx fnd show ?case by simp
qed

lemma fold_better_None:
  assumes "cs \<noteq> []"
  shows "\<exists>w. fold better cs None = Some w
       \<and> w \<in> set cs
       \<and> (\<forall>c \<in> set cs. typeScore (type_of c) \<le> typeScore (type_of w))
       \<and> find (\<lambda>c. typeScore (type_of w) \<le> typeScore (type_of c)) cs = Some w"
proof -
  from assms obtain e es where cs: "cs = e # es" by (cases cs) auto
  have "fold better cs None = fold better es (Some e)"
    by (simp add: cs better_def)
  with fold_better_Some [of es e] show ?thesis
    unfolding cs by simp
qed

lemma fold_better_Nil_iff: "fold better cs None = None \<longleftrightarrow> cs = []"
  using fold_better_None [of cs] by (cases cs) auto

text \<open>The final map: its keys are distinct and each entry is characterised by its key.\<close>

lemma dedup_entry:
  "(k, w) \<in> set (fold dedupStep cs []) \<longleftrightarrow>
     fold better (filter (\<lambda>c. pairKey c = k) cs) None = Some w"
proof -
  have d: "distinct (map fst (fold dedupStep cs []))"
    by (rule distinct_fold_dedupStep) simp
  have "(k, w) \<in> set (fold dedupStep cs []) \<longleftrightarrow> map_of (fold dedupStep cs []) k = Some w"
    using d by simp
  then show ?thesis
    by (simp add: map_of_fold_dedupStep)
qed

lemma dedup_entry_props:
  assumes "(k, w) \<in> set (fold dedupStep cs [])"
  shows "w \<in> set cs" "pairKey w = k"
    "\<forall>c \<in> set cs. pairKey c = k \<longrightarrow> typeScore (type_of c) \<le> typeScore (type_of w)"
    "find (\<lambda>c. pairKey c = k \<and> typeScore (type_of w) \<le> typeScore (type_of c)) cs = Some w"
proof -
  let ?g = "filter (\<lambda>c. pairKey c = k) cs"
  from assms have fb: "fold better ?g None = Some w" by (simp add: dedup_entry)
  then have ne: "?g \<noteq> []" using fold_better_Nil_iff [of ?g] by auto
  from fold_better_None [OF ne] fb have w: "w \<in> set ?g"
    "\<forall>c \<in> set ?g. typeScore (type_of c) \<le> typeScore (type_of w)"
    "find (\<lambda>c. typeScore (type_of w) \<le> typeScore (type_of c)) ?g = Some w"
    by auto
  from w(1) show "w \<in> set cs" "pairKey w = k" by auto
  from w(2) show "\<forall>c \<in> set cs. pairKey c = k \<longrightarrow> typeScore (type_of c) \<le> typeScore (type_of w)"
    by auto
  have "find P (filter Q xs) = find (\<lambda>c. Q c \<and> P c) xs" for P Q and xs :: "Interaction list"
    by (induction xs) auto
  with w(3) show "find (\<lambda>c. pairKey c = k \<and> typeScore (type_of w) \<le> typeScore (type_of c)) cs = Some w"
    by simp
qed

lemma dedup_keys_cover:
  assumes "c \<in> set cs"
  shows "\<exists>w. (pairKey c, w) \<in> set (fold dedupStep cs [])"
proof -
  let ?g = "filter (\<lambda>d. pairKey d = pairKey c) cs"
  from assms have "?g \<noteq> []" by (auto simp: filter_empty_conv)
  from fold_better_None [OF this] show ?thesis
    by (auto simp: dedup_entry)
qed

lemma deduplicate_distinct_keys: "distinct (map pairKey (deduplicate cs))"
proof -
  let ?M = "fold dedupStep cs []"
  have d: "distinct (map fst ?M)"
    by (rule distinct_fold_dedupStep) simp
  have "\<forall>e \<in> set ?M. pairKey (snd e) = fst e"
    using dedup_entry_props(2) [of _ _ cs] by auto
  then have eq: "map (pairKey \<circ> snd) ?M = map fst ?M"
    by simp
  show ?thesis
    unfolding deduplicate_def map_map eq by (rule d)
qed

lemma deduplicate_distinct_pairs: "distinct (map pairOf (deduplicate cs))"
proof -
  let ?f = "\<lambda>p. showNat (fst p) @ ''-'' @ showNat (snd p)"
  have "map pairKey (deduplicate cs) = map ?f (map pairOf (deduplicate cs))"
    by (simp add: pairKey_def pairOf_def)
  then have "distinct (map ?f (map pairOf (deduplicate cs)))"
    using deduplicate_distinct_keys [of cs] by (simp only:)
  then show ?thesis
    by (simp only: distinct_map [of ?f])
qed

lemma deduplicate_member:
  "w \<in> set (deduplicate cs) \<longleftrightarrow> (pairKey w, w) \<in> set (fold dedupStep cs [])"
proof
  assume "w \<in> set (deduplicate cs)"
  then obtain k where k: "(k, w) \<in> set (fold dedupStep cs [])"
    by (auto simp: deduplicate_def)
  with dedup_entry_props(2) [OF k] show "(pairKey w, w) \<in> set (fold dedupStep cs [])"
    by simp
next
  assume "(pairKey w, w) \<in> set (fold dedupStep cs [])"
  then show "w \<in> set (deduplicate cs)"
    unfolding deduplicate_def by force
qed

section \<open>Deduplication: priority and ties\<close>

lemma filter_distinct_key_single:
  "distinct (map f xs) \<Longrightarrow> w \<in> set xs \<Longrightarrow> filter (\<lambda>i. f i = f w) xs = [w]"
proof (induction xs)
  case Nil
  then show ?case by simp
next
  case (Cons a xs)
  show ?case
  proof (cases "a = w")
    case True
    with Cons.prems have "f w \<notin> f ` set xs" by simp
    then have "\<forall>i \<in> set xs. f i \<noteq> f w" by (metis imageI)
    then have "filter (\<lambda>i. f i = f w) xs = []" by (simp add: filter_empty_conv)
    with True show ?thesis by simp
  next
    case False
    with Cons.prems have "w \<in> set xs" "f a \<noteq> f w" by auto
    with Cons show ?thesis by simp
  qed
qed

lemma typeScore_top: "typeScore t \<le> 4" "typeScore t = 4 \<longleftrightarrow> t = SaltBridge"
  by (simp_all add: typeScore_def)

lemma dedup_survivor:
  assumes "c \<in> set cands"
  obtains w where "w \<in> set (deduplicate cands)" "pairOf w = pairOf c" "w \<in> set cands"
    "\<forall>d \<in> set cands. pairOf d = pairOf c \<longrightarrow> typeScore (type_of d) \<le> typeScore (type_of w)"
proof -
  from dedup_keys_cover [OF assms] obtain w where w: "(pairKey c, w) \<in> set (fold dedupStep cands [])"
    by blast
  note p = dedup_entry_props [OF w]
  have "w \<in> set (deduplicate cands)"
    using w p(2) by (simp add: deduplicate_member)
  moreover have "pairOf w = pairOf c"
    using p(2) by (simp add: pairKey_eq_iff)
  moreover have "\<forall>d \<in> set cands. pairOf d = pairOf c \<longrightarrow> typeScore (type_of d) \<le> typeScore (type_of w)"
    using p(3) by (simp add: pairKey_eq_iff)
  ultimately show thesis using p(1) that by blast
qed

text \<open>
  C3. \<open>analyzeInteractions\<close> returns \<open>deduplicate\<close> of the candidates it has detected.
  Whenever candidates are produced for an atom pair, exactly one interaction for that
  pair is in the output of the deduplication; it is one of the candidates and its type has
  the highest rank among the candidates of the pair, under the order SaltBridge >
  PiStacking > HydrogenBond > the others (Hydrophobic, HalogenBond, MetalCoordination,
  at the same lowest rank). In particular, when a SaltBridge candidate exists for the
  pair (with a HydrogenBond candidate or any other), the survivor is a SaltBridge.
\<close>

theorem deduplicate_keeps_highest_priority:
  "(c \<in> set cands \<longrightarrow>
      (\<exists>w. filter (\<lambda>i. pairOf i = pairOf c) (deduplicate cands) = [w]
          \<and> w \<in> set cands
          \<and> (\<forall>d \<in> set cands. pairOf d = pairOf c \<longrightarrow> typeScore (type_of d) \<le> typeScore (type_of w))
          \<and> ((\<exists>d \<in> set cands. pairOf d = pairOf c \<and> type_of d = SaltBridge)
                \<longrightarrow> type_of w = SaltBridge)))
   \<and> typeScore SaltBridge > typeScore PiStacking
   \<and> typeScore PiStacking > typeScore HydrogenBond
   \<and> typeScore HydrogenBond > typeScore Hydrophobic
   \<and> typeScore Hydrophobic = typeScore HalogenBond
   \<and> typeScore HalogenBond = typeScore MetalCoordination"
proof -
  have main: "\<exists>w. filter (\<lambda>i. pairOf i = pairOf c) (deduplicate cands) = [w]
          \<and> w \<in> set cands
          \<and> (\<forall>d \<in> set cands. pairOf d = pairOf c \<longrightarrow> typeScore (type_of d) \<le> typeScore (type_of w))
          \<and> ((\<exists>d \<in> set cands. pairOf d = pairOf c \<and> type_of d = SaltBridge)
                \<longrightarrow> type_of w = SaltBridge)"
    if c: "c \<in> set cands"
  proof -
    from dedup_survivor [OF c] obtain w where w: "w \<in> set (deduplicate cands)"
      "pairOf w = pairOf c" "w \<in> set cands"
      "\<forall>d \<in> set cands. pairOf d = pairOf c \<longrightarrow> typeScore (type_of d) \<le> typeScore (type_of w)"
      by blast
    have "filter (\<lambda>i. pairOf i = pairOf w) (deduplicate cands) = [w]"
      using deduplicate_distinct_pairs w(1) by (rule filter_distinct_key_single)
    then have one: "filter (\<lambda>i. pairOf i = pairOf c) (deduplicate cands) = [w]"
      by (simp only: w(2))
    have sb: "type_of w = SaltBridge"
      if "\<exists>d \<in> set cands. pairOf d = pairOf c \<and> type_of d = SaltBridge"
    proof -
      from that obtain d where d: "d \<in> set cands" "pairOf d = pairOf c" "type_of d = SaltBridge"
        by blast
      from w(4) d(1,2) have "typeScore (type_of d) \<le> typeScore (type_of w)" by blast
      with d(3) have "4 \<le> typeScore (type_of w)"
        by (simp add: typeScore_def)
      with typeScore_top [of "type_of w"] show ?thesis by simp
    qed
    from one w(3) w(4) sb show ?thesis by blast
  qed
  show ?thesis
    using main by (simp add: typeScore_def)
qed

theorem deduplicate_keeps_highest_priority_witness:
  "type_of (hd (filter (\<lambda>i. pairOf i = pairOf exHB) (deduplicate [exHB, exXB, exSB, exMT])))
     = SaltBridge"
proof -
  have c: "exHB \<in> set [exHB, exXB, exSB, exMT]" by simp
  have sb: "\<exists>d \<in> set [exHB, exXB, exSB, exMT]. pairOf d = pairOf exHB \<and> type_of d = SaltBridge"
    by (simp add: pairOf_def exHB_def exSB_def)
  from deduplicate_keeps_highest_priority [of exHB "[exHB, exXB, exSB, exMT]"] c sb
  obtain w where "filter (\<lambda>i. pairOf i = pairOf exHB) (deduplicate [exHB, exXB, exSB, exMT]) = [w]"
    "type_of w = SaltBridge"
    by blast
  then show ?thesis by simp
qed

text \<open>
  C9. A candidate replaces the entry of its pair only if its rank is strictly higher than
  the rank of the entry; so an interaction in the output is the earliest candidate, in
  detection order, among the candidates of its pair whose rank is not lower than its own
  (candidates of equal rank that come later do not replace it).
\<close>

theorem deduplicate_keeps_earliest_of_equal_rank:
  "(w \<in> set (deduplicate cands) \<longrightarrow>
      find (\<lambda>c. pairOf c = pairOf w \<and> typeScore (type_of w) \<le> typeScore (type_of c)) cands = Some w)
   \<and> (map_of pairMap (pairKey i) = Some existing \<longrightarrow>
        map_of (dedupStep i pairMap) (pairKey i)
          = Some (if typeScore (type_of i) > typeScore (type_of existing) then i else existing))"
proof -
  have a: "find (\<lambda>c. pairOf c = pairOf w \<and> typeScore (type_of w) \<le> typeScore (type_of c)) cands = Some w"
    if "w \<in> set (deduplicate cands)"
  proof -
    from that have "(pairKey w, w) \<in> set (fold dedupStep cands [])"
      by (simp add: deduplicate_member)
    from dedup_entry_props(4) [OF this] show ?thesis
      by (simp add: pairKey_eq_iff)
  qed
  have b: "map_of (dedupStep i pairMap) (pairKey i)
          = Some (if typeScore (type_of i) > typeScore (type_of existing) then i else existing)"
    if "map_of pairMap (pairKey i) = Some existing"
    using that by (simp add: map_of_dedupStep better_def)
  from a b show ?thesis by blast
qed

theorem deduplicate_keeps_earliest_of_equal_rank_witness:
  "deduplicate [exHB, exXB, exSB, exMT] = [exSB, exXB]
   \<and> find (\<lambda>c. pairOf c = pairOf exXB \<and> typeScore (type_of exXB) \<le> typeScore (type_of c))
        [exHB, exXB, exSB, exMT] = Some exXB"
proof -
  have d: "deduplicate [exHB, exXB, exSB, exMT] = [exSB, exXB]"
    by code_simp
  then have "exXB \<in> set (deduplicate [exHB, exXB, exSB, exMT])" by simp
  with deduplicate_keeps_earliest_of_equal_rank [of exXB "[exHB, exXB, exSB, exMT]"] d
  show ?thesis by blast
qed

section \<open>Ring perception: the invariant of the search\<close>

declare dfs.simps [simp del]

lemma fold_invariant:
  assumes "I s" and "\<And>a s. a \<in> set xs \<Longrightarrow> I s \<Longrightarrow> I (f a s)"
  shows "I (fold f xs s)"
  using assms by (induction xs arbitrary: s) simp_all

lemma ringInv_push:
  assumes inv: "ringInv atoms st" and len: "length path = 5 \<or> length path = 6"
    and rng: "\<forall>idx \<in> set path. idx < length atoms"
    and new: "pathKey path \<notin> set (visitedPaths st)"
  shows "ringInv atoms (st\<lparr>visitedPaths := visitedPaths st @ [pathKey path],
                            rings := rings st @ [map (\<lambda>idx. atoms ! idx) path]\<rparr>)"
proof -
  from inv obtain paths where p: "rings st = map (map (\<lambda>idx. atoms ! idx)) paths"
    "visitedPaths st = map pathKey paths" "distinct (visitedPaths st)"
    "\<forall>p \<in> set paths. (length p = 5 \<or> length p = 6) \<and> (\<forall>idx \<in> set p. idx < length atoms)"
    unfolding ringInv_def by blast
  show ?thesis
    unfolding ringInv_def
    by (rule exI [of _ "paths @ [path]"]) (use p len rng new in auto)
qed

lemma dfs_too_long: "length path > 6 \<Longrightarrow> dfs adj atoms start current path st = st"
  by (subst dfs.simps) simp

lemma dfs_closes:
  "\<not> length path > 6 \<Longrightarrow> length path \<ge> 5 \<and> start \<in> set (adj ! current)
   \<Longrightarrow> dfs adj atoms start current path st
       = (if pathKey path \<notin> set (visitedPaths st)
          then st\<lparr>visitedPaths := visitedPaths st @ [pathKey path],
                  rings := rings st @ [map (\<lambda>idx. atoms ! idx) path]\<rparr>
          else st)"
  by (subst dfs.simps) (simp only: if_False if_True Let_def simp_thms)

lemma dfs_descends:
  "\<not> length path > 6 \<Longrightarrow> \<not> (length path \<ge> 5 \<and> start \<in> set (adj ! current))
   \<Longrightarrow> dfs adj atoms start current path st
       = fold (\<lambda>neighbor st'.
                   if neighbor \<notin> set path
                   then dfs adj atoms start neighbor (path @ [neighbor]) st'
                   else st')
                (adj ! current) st"
  by (subst dfs.simps) (simp only: if_False)

lemma dfs_ringInv:
  "ringInv atoms st \<Longrightarrow> (\<forall>idx \<in> set path. idx < length atoms)
   \<Longrightarrow> (\<forall>ns \<in> set adj. \<forall>idx \<in> set ns. idx < length atoms)
   \<Longrightarrow> current < length adj
   \<Longrightarrow> length adj = length atoms
   \<Longrightarrow> ringInv atoms (dfs adj atoms start current path st)"
proof (induction adj atoms start current path st rule: dfs.induct)
  case (1 adj atoms start current path st)
  show ?case
  proof (cases "length path > 6")
    case True
    with "1.prems"(1) show ?thesis by (simp add: dfs_too_long)
  next
    case short: False
    show ?thesis
    proof (cases "length path \<ge> 5 \<and> start \<in> set (adj ! current)")
      case True
      with short have len: "length path = 5 \<or> length path = 6" by arith
      show ?thesis
      proof (cases "pathKey path \<in> set (visitedPaths st)")
        case True
        with "1.prems"(1) show ?thesis
          by (simp only: dfs_closes [OF short \<open>length path \<ge> 5 \<and> start \<in> set (adj ! current)\<close>] not_True_eq_False if_False simp_thms)
      next
        case False
        from ringInv_push [OF "1.prems"(1) len "1.prems"(2) False] False
        show ?thesis
          by (simp only: dfs_closes [OF short \<open>length path \<ge> 5 \<and> start \<in> set (adj ! current)\<close>] if_True simp_thms)
      qed
    next
      case noRing: False
      have nb: "\<forall>idx \<in> set (adj ! current). idx < length atoms"
        using "1.prems"(3,4) by (metis nth_mem)
      have "ringInv atoms
              (fold (\<lambda>neighbor st'.
                   if neighbor \<notin> set path
                   then dfs adj atoms start neighbor (path @ [neighbor]) st'
                   else st')
                (adj ! current) st)"
      proof (rule fold_invariant [where I = "ringInv atoms"])
        show "ringInv atoms st" by (rule "1.prems"(1))
      next
        fix a s
        assume a: "a \<in> set (adj ! current)" and s: "ringInv atoms s"
        show "ringInv atoms (if a \<notin> set path then dfs adj atoms start a (path @ [a]) s else s)"
        proof (cases "a \<in> set path")
          case True
          with s show ?thesis by simp
        next
          case False
          have "ringInv atoms (dfs adj atoms start a (path @ [a]) s)"
          proof (rule "1.IH" [OF short noRing a False s])
            show "\<forall>idx \<in> set (path @ [a]). idx < length atoms"
              using "1.prems"(2) nb a by auto
            show "\<forall>ns \<in> set adj. \<forall>idx \<in> set ns. idx < length atoms" by (rule "1.prems"(3))
            show "a < length adj" using nb a "1.prems"(5) by simp
            show "length adj = length atoms" by (rule "1.prems"(5))
          qed
          with False show ?thesis by simp
        qed
      qed
      then show ?thesis by (simp only: dfs_descends [OF short noRing])
    qed
  qed
qed

lemma buildAdjacency_shape:
  "length (buildAdjacency atoms) = length atoms
   \<and> (\<forall>ns \<in> set (buildAdjacency atoms). \<forall>idx \<in> set ns. idx < length atoms)"
proof -
  let ?n = "length atoms"
  let ?I = "\<lambda>adj :: nat list list. length adj = ?n \<and> (\<forall>ns \<in> set adj. \<forall>idx \<in> set ns. idx < ?n)"
  have push: "?I (adj[i := adj ! i @ [j]])" if "?I adj" "i < ?n" "j < ?n" for adj i j
  proof -
    have "\<forall>idx \<in> set (adj ! i @ [j]). idx < ?n"
      using that by auto
    moreover have "set (adj[i := adj ! i @ [j]]) \<subseteq> insert (adj ! i @ [j]) (set adj)"
      by (rule set_update_subset_insert)
    ultimately have "\<forall>ns \<in> set (adj[i := adj ! i @ [j]]). \<forall>idx \<in> set ns. idx < ?n"
      using that(1) by blast
    with that(1) show ?thesis by simp
  qed
  have inner: "?I (if distance (atoms ! i) (atoms ! j) < 1.65
                     then (let adj1 = adj[i := adj ! i @ [j]] in adj1[j := adj1 ! j @ [i]])
                     else adj)" if "?I adj" "i < ?n" "j < ?n" for adj i j
  proof (cases "distance (atoms ! i) (atoms ! j) < 1.65")
    case True
    have "?I ((adj[i := adj ! i @ [j]])[j := (adj[i := adj ! i @ [j]]) ! j @ [i]])"
      by (rule push [OF push [OF that] that(3) that(2)])
    with True show ?thesis by (simp add: Let_def)
  next
    case False
    with that(1) show ?thesis by simp
  qed
  have start: "?I (map (\<lambda>a. []) atoms)" by simp
  have "?I (buildAdjacency atoms)"
    unfolding buildAdjacency_def
  proof (rule fold_invariant [where I = ?I, OF start])
    fix i adj
    assume i: "i \<in> set [0 ..< ?n]" and adj: "?I adj"
    show "?I (fold (\<lambda>j adj.
                     if distance (atoms ! i) (atoms ! j) < 1.65
                     then (let adj1 = adj[i := adj ! i @ [j]] in adj1[j := adj1 ! j @ [i]])
                     else adj)
                  [i + 1 ..< ?n] adj)"
    proof (rule fold_invariant [where I = ?I, OF adj])
      fix j adj'
      assume "j \<in> set [i + 1 ..< ?n]" and "?I adj'"
      with i show "?I (if distance (atoms ! i) (atoms ! j) < 1.65
                     then (let adj1 = adj'[i := adj' ! i @ [j]] in adj1[j := adj1 ! j @ [i]])
                     else adj')"
        by (intro inner) simp_all
    qed
  qed
  then show ?thesis by blast
qed

lemma ringInv_start: "ringInv atoms \<lparr>visitedPaths = [], rings = []\<rparr>"
  unfolding ringInv_def by (rule exI [of _ "[]"]) simp

lemma findLigandRings_paths:
  "\<exists>paths. findLigandRings atoms = map (map (\<lambda>idx. atoms ! idx)) paths
          \<and> distinct (map pathKey paths)
          \<and> (\<forall>p \<in> set paths. (length p = 5 \<or> length p = 6) \<and> (\<forall>idx \<in> set p. idx < length atoms))"
proof (cases "length atoms = 0")
  case True
  then have "findLigandRings atoms = []" by (simp add: findLigandRings_def)
  then show ?thesis by (intro exI [of _ "[]"]) simp
next
  case False
  let ?adj = "buildAdjacency atoms"
  let ?st = "fold (\<lambda>i st.
                            if element (atoms ! i) \<in> set [''C'', ''N'']
                            then dfs ?adj atoms i i [i] st
                            else st)
                         [0 ..< length atoms] \<lparr>visitedPaths = [], rings = []\<rparr>"
  have inv: "ringInv atoms ?st"
  proof (rule fold_invariant [where I = "ringInv atoms", OF ringInv_start])
    fix i st
    assume i: "i \<in> set [0 ..< length atoms]" and st: "ringInv atoms st"
    have "ringInv atoms (dfs ?adj atoms i i [i] st)"
      using i buildAdjacency_shape [of atoms] by (intro dfs_ringInv [OF st]) simp_all
    with st show "ringInv atoms (if element (atoms ! i) \<in> set [''C'', ''N'']
                            then dfs ?adj atoms i i [i] st else st)"
      by (simp only: if_split) blast
  qed
  have res: "findLigandRings atoms = rings ?st"
    using False by (simp only: findLigandRings_def Let_def if_False)
  from inv obtain paths where p: "rings ?st = map (map (\<lambda>idx. atoms ! idx)) paths"
    "visitedPaths ?st = map pathKey paths" "distinct (visitedPaths ?st)"
    "\<forall>p \<in> set paths. (length p = 5 \<or> length p = 6) \<and> (\<forall>idx \<in> set p. idx < length atoms)"
    unfolding ringInv_def by blast
  from p(2,3) have "distinct (map pathKey paths)" by (simp only:)
  with p(1,4) res show ?thesis
    by (intro exI [of _ paths]) (simp only: simp_thms)
qed

lemma pathKey_sort: "sort p = sort q \<Longrightarrow> pathKey p = pathKey q"
  by (simp add: pathKey_def)

lemma mset_positions_eq:
  assumes inj: "inj_on h {..< n}" and p: "\<forall>i \<in> set p. i < n" and q: "\<forall>i \<in> set q. i < n"
    and eq: "mset (map h p) = mset (map h q)"
  shows "mset p = mset q"
proof -
  have "inj_on h (set_mset (mset p) \<union> set_mset (mset q))"
    using p q by (intro inj_on_subset [OF inj]) auto
  moreover from eq have "image_mset h (mset p) = image_mset h (mset q) + {#}" by simp
  ultimately obtain C' where "mset p = mset q + C'" "{#} = image_mset h C'"
    using image_mset_eq_image_mset_plusD by blast
  then show ?thesis by simp
qed

text \<open>
  C6. For every ligand atom list, \<open>findLigandRings\<close> returns only rings of 5 or 6 atoms,
  all of them atoms of the list, and no two of the returned rings come from the same
  sorted set of positions of the atom list; when the atoms have distinct indices, no two
  of the returned rings have the same sorted list of atom indices.
\<close>

theorem findLigandRings_sizes_and_no_duplicates:
  "(\<forall>r \<in> set (findLigandRings atoms). (length r = 5 \<or> length r = 6) \<and> set r \<subseteq> set atoms)
   \<and> (\<exists>paths. findLigandRings atoms = map (map (\<lambda>idx. atoms ! idx)) paths
              \<and> distinct (map sort paths))
   \<and> (distinct (map index atoms)
        \<longrightarrow> distinct (map (\<lambda>r. sort (map index r)) (findLigandRings atoms)))"
proof -
  from findLigandRings_paths [of atoms] obtain paths where
    r: "findLigandRings atoms = map (map (\<lambda>idx. atoms ! idx)) paths" and
    d: "distinct (map pathKey paths)" and
    s: "\<forall>p \<in> set paths. (length p = 5 \<or> length p = 6) \<and> (\<forall>idx \<in> set p. idx < length atoms)"
    by blast
  from d have dp: "distinct paths" and ik: "inj_on pathKey (set paths)"
    by (simp_all add: distinct_map)
  have sizes: "\<forall>r \<in> set (findLigandRings atoms). (length r = 5 \<or> length r = 6) \<and> set r \<subseteq> set atoms"
    unfolding r using s by auto
  have "inj_on sort (set paths)"
  proof (rule inj_onI)
    fix p q assume "p \<in> set paths" "q \<in> set paths" "sort p = sort q"
    with ik pathKey_sort [of p q] show "p = q" by (auto dest: inj_onD)
  qed
  with dp have ds: "distinct (map sort paths)" by (simp add: distinct_map)
  have di: "distinct (map (\<lambda>r. sort (map index r)) (findLigandRings atoms))"
    if da: "distinct (map index atoms)"
  proof -
    let ?h = "\<lambda>idx. index (atoms ! idx)"
    have inj: "inj_on ?h {..< length atoms}"
      using da by (auto simp: inj_on_def distinct_conv_nth)
    have "inj_on (\<lambda>p. sort (map ?h p)) (set paths)"
    proof (rule inj_onI)
      fix p q assume pq: "p \<in> set paths" "q \<in> set paths" and e: "sort (map ?h p) = sort (map ?h q)"
      from e have "mset (sort (map ?h p)) = mset (sort (map ?h q))" by simp
      then have "mset (map ?h p) = mset (map ?h q)" by (simp only: mset_sort)
      moreover have "\<forall>i \<in> set p. i < length atoms" "\<forall>i \<in> set q. i < length atoms"
        using s pq by blast+
      ultimately have "mset p = mset q"
        using inj by (intro mset_positions_eq [of ?h "length atoms" p q])
      then have "sort p = sort q"
        by (metis properties_for_sort sorted_sort mset_sort)
      with \<open>inj_on sort (set paths)\<close> pq show "p = q" by (auto dest: inj_onD)
    qed
    with dp have "distinct (map (\<lambda>p. sort (map ?h p)) paths)" by (simp add: distinct_map)
    then show ?thesis
      unfolding r by (simp add: comp_def)
  qed
  from sizes r ds di show ?thesis by blast
qed

section \<open>Distances and cutoffs\<close>

lemma distance_sqrt: "distance a b = sqrt (distanceSq a b)"
  by (simp add: distance_def distanceSq_def Let_def)

lemma distance_less_iff: "0 \<le> c \<Longrightarrow> distance a b < c \<longleftrightarrow> distanceSq a b < c\<^sup>2"
  unfolding distance_sqrt by (metis real_sqrt_less_iff real_sqrt_abs abs_of_nonneg)

lemma distance_le_iff: "0 \<le> c \<Longrightarrow> distance a b \<le> c \<longleftrightarrow> distanceSq a b \<le> c\<^sup>2"
  unfolding distance_sqrt by (metis real_sqrt_le_iff real_sqrt_abs abs_of_nonneg)

lemma distance_greater_iff: "0 \<le> c \<Longrightarrow> distance a b > c \<longleftrightarrow> distanceSq a b > c\<^sup>2"
  unfolding distance_sqrt by (metis real_sqrt_less_iff real_sqrt_abs abs_of_nonneg)

lemma cutoff_tests:
  "distance a b \<le> PI_STACKING_DIST \<longleftrightarrow> distanceSq a b \<le> 30.25"
  "distance a b < PI_CATION_DIST \<longleftrightarrow> distanceSq a b < 25"
  "distance a b < SALT_BRIDGE_DIST \<longleftrightarrow> distanceSq a b < 16"
  "HBOND_DIST < distance a b \<longleftrightarrow> 12.25 < distanceSq a b"
  "HYDROPHOBIC_DIST < distance a b \<longleftrightarrow> 20.25 < distanceSq a b"
  "distance a b \<le> HBOND_DIST \<longleftrightarrow> distanceSq a b \<le> 12.25"
  "distance a b \<le> HALOGEN_DIST \<longleftrightarrow> distanceSq a b \<le> 12.25"
  "distance a b \<le> HYDROPHOBIC_DIST \<longleftrightarrow> distanceSq a b \<le> 20.25"
  "distance a b \<le> METAL_DIST \<longleftrightarrow> distanceSq a b \<le> 7.84"
  "distance a b < 18.0 \<longleftrightarrow> distanceSq a b < 324"
  "distance a b < 1.65 \<longleftrightarrow> distanceSq a b < 2.7225"
  using distance_le_iff [of "5.5" a b] distance_less_iff [of 5 a b] distance_less_iff [of 4 a b]
    distance_greater_iff [of "3.5" a b] distance_greater_iff [of "4.5" a b]
    distance_le_iff [of "3.5" a b] distance_le_iff [of "4.5" a b] distance_le_iff [of "2.8" a b]
    distance_less_iff [of 18 a b] distance_less_iff [of "1.65" a b]
  by (simp_all add: PI_STACKING_DIST_def
      PI_CATION_DIST_def SALT_BRIDGE_DIST_def HBOND_DIST_def HYDROPHOBIC_DIST_def HALOGEN_DIST_def
      METAL_DIST_def power2_eq_square)

section \<open>Extraction and grouping\<close>

lemma extractAtoms_fold:
  "fold (extractStep lig) aps (L, P)
   = (L @ map parseNGLAtom (filter (isLigand lig) aps),
      P @ map parseNGLAtom (filter (\<lambda>ap. \<not> isLigand lig ap \<and> \<not> ap_isHetero ap) aps))"
  by (induction aps arbitrary: L P) (simp_all add: extractStep_def)

lemma extractAtoms_eq:
  "extractAtoms s lig
   = (map parseNGLAtom (filter (isLigand lig) (eachAtom s)),
      map parseNGLAtom (filter (\<lambda>ap. \<not> isLigand lig ap \<and> \<not> ap_isHetero ap) (eachAtom s)))"
  by (simp add: extractAtoms_def extractAtoms_fold)

lemma index_parseNGLAtom: "index (parseNGLAtom ap) = ap_index ap"
  by (simp add: parseNGLAtom_def)

lemma extractAtoms_disjoint_indices:
  assumes d: "distinct (map ap_index (eachAtom s))" and e: "extractAtoms s lig = (L, P)"
    and l: "a \<in> set L" and p: "b \<in> set P"
  shows "index a \<noteq> index b"
proof -
  from e have L: "L = map parseNGLAtom (filter (isLigand lig) (eachAtom s))"
    and P: "P = map parseNGLAtom (filter (\<lambda>ap. \<not> isLigand lig ap \<and> \<not> ap_isHetero ap) (eachAtom s))"
    by (simp_all add: extractAtoms_eq)
  from l obtain ap where ap: "ap \<in> set (eachAtom s)" "isLigand lig ap" "a = parseNGLAtom ap"
    unfolding L by (auto simp only: set_map set_filter image_iff mem_Collect_eq)
  from p obtain bp where bp: "bp \<in> set (eachAtom s)" "\<not> isLigand lig bp" "b = parseNGLAtom bp"
    unfolding P by (auto simp only: set_map set_filter image_iff mem_Collect_eq)
  from ap(2) bp(2) have ne: "ap \<noteq> bp" by blast
  from d have "inj_on ap_index (set (eachAtom s))" by (simp add: distinct_map)
  with ap(1) bp(1) ne have "ap_index ap \<noteq> ap_index bp"
    by (blast dest: inj_onD)
  then show ?thesis by (simp only: ap(3) bp(3) index_parseNGLAtom not_False_eq_True)
qed

lemma update_absent: "map_of al k = None \<Longrightarrow> AList.update k v al = al @ [(k, v)]"
  by (induction al) (auto split: if_splits)

lemma map_entry_absent_append:
  "map_of al k = None \<Longrightarrow> AList.map_entry k f (al @ [(k, v)]) = al @ [(k, f v)]"
  by (induction al) (auto split: if_splits)

lemma groupStep_cases:
  "groupStep a pr =
     (if map_of pr (residueKey a) = None then pr @ [(residueKey a, [a])]
      else AList.map_entry (residueKey a) (\<lambda>atoms. atoms @ [a]) pr)"
  by (simp add: groupStep_def Let_def update_absent map_entry_absent_append)

lemma set_map_entry:
  "e \<in> set (AList.map_entry k f al) \<Longrightarrow> e \<in> set al \<or> (\<exists>v. (k, v) \<in> set al \<and> e = (k, f v))"
  by (induction al) (auto split: if_splits)

lemma groupStep_groups:
  assumes "\<forall>e \<in> set pr. snd e \<noteq> [] \<and> set (snd e) \<subseteq> A" and "a \<in> A"
  shows "\<forall>e \<in> set (groupStep a pr). snd e \<noteq> [] \<and> set (snd e) \<subseteq> A"
proof (cases "map_of pr (residueKey a) = None")
  case True
  with assms show ?thesis by (simp add: groupStep_cases)
next
  case False
  show ?thesis
  proof
    fix e assume "e \<in> set (groupStep a pr)"
    with False have "e \<in> set (AList.map_entry (residueKey a) (\<lambda>atoms. atoms @ [a]) pr)"
      by (simp only: groupStep_cases if_False)
    from set_map_entry [OF this]
    consider "e \<in> set pr" | v where "(residueKey a, v) \<in> set pr" "e = (residueKey a, v @ [a])"
      by blast
    then show "snd e \<noteq> [] \<and> set (snd e) \<subseteq> A"
    proof cases
      case 1
      with assms(1) show ?thesis by blast
    next
      case 2
      from assms(1) 2(1) have "set (snd (residueKey a, v)) \<subseteq> A" by blast
      with 2(2) assms(2) show ?thesis by simp
    qed
  qed
qed

lemma fold_groupStep_groups:
  assumes "\<forall>e \<in> set pr. snd e \<noteq> [] \<and> set (snd e) \<subseteq> A" and "set as \<subseteq> A"
  shows "\<forall>e \<in> set (fold groupStep as pr). snd e \<noteq> [] \<and> set (snd e) \<subseteq> A"
  using assms
proof (induction as arbitrary: pr)
  case Nil
  then show ?case by simp
next
  case (Cons a as)
  from Cons.prems(2) have a: "a \<in> A" and as: "set as \<subseteq> A" by simp_all
  have "\<forall>e \<in> set (groupStep a pr). snd e \<noteq> [] \<and> set (snd e) \<subseteq> A"
    using Cons.prems(1) a by (rule groupStep_groups)
  from Cons.IH [OF this as] show ?case by simp
qed

lemma groupResidues_groups:
  assumes "g \<in> set (groupResidues P)"
  shows "g \<noteq> [] \<and> set g \<subseteq> set P"
proof -
  have all: "\<forall>e \<in> set (fold groupStep P []). snd e \<noteq> [] \<and> set (snd e) \<subseteq> set P"
    by (rule fold_groupStep_groups) simp_all
  from assms obtain e where e: "e \<in> set (fold groupStep P [])" "g = snd e"
    unfolding groupResidues_def by (auto simp only: set_map image_iff)
  from all e(1) have "snd e \<noteq> [] \<and> set (snd e) \<subseteq> set P" by (rule bspec)
  then show ?thesis by (simp add: e(2))
qed

section \<open>Every detected interaction is an accepted one\<close>

lemma nth0_mem: "xs \<noteq> [] \<Longrightarrow> xs ! 0 \<in> set xs"
  by (cases xs) simp_all

lemma findLigandRings_ring_atoms:
  assumes "ring \<in> set (findLigandRings L)"
  shows "ring \<noteq> []" "set ring \<subseteq> set L" "ring ! 0 \<in> set L"
proof -
  from findLigandRings_paths [of L] obtain paths where
    r: "findLigandRings L = map (map (\<lambda>idx. L ! idx)) paths" and
    s: "\<forall>p \<in> set paths. (length p = 5 \<or> length p = 6) \<and> (\<forall>idx \<in> set p. idx < length L)"
    by blast
  from assms r obtain p where p: "p \<in> set paths" "ring = map (\<lambda>idx. L ! idx) p"
    by (auto simp only: set_map image_iff)
  from s p(1) have len: "length p = 5 \<or> length p = 6" and rng: "\<forall>idx \<in> set p. idx < length L"
    by blast+
  from len p(2) show ne: "ring \<noteq> []" by auto
  from rng p(2) show sub: "set ring \<subseteq> set L" by auto
  from ne have "ring ! 0 \<in> set ring" by (rule nth0_mem)
  with sub show "ring ! 0 \<in> set L" by blast
qed

lemma ligandRingData_member:
  assumes "lRing \<in> set (ligandRingDataOf (findLigandRings L))"
  shows "ring_atoms lRing \<in> set (findLigandRings L)" "center lRing = getCenter (ring_atoms lRing)"
  using assms unfolding ligandRingDataOf_def by auto

lemma detected_push:
  "detected (pushInteraction pre t d l p ang st)
   = detected st @ [\<lparr>id_of = pre @ ''-'' @ showNat (idCounter st), type_of = t, distance_of = d,
                     ligandAtom = l, proteinAtom = p, angle_of = ang\<rparr>]"
  by (simp add: pushInteraction_def)

lemma accepted_push:
  assumes "\<forall>i \<in> set (detected st). accepted L P i"
    and "accepted L P \<lparr>id_of = pre @ ''-'' @ showNat (idCounter st), type_of = t, distance_of = d,
                     ligandAtom = l, proteinAtom = p, angle_of = ang\<rparr>"
  shows "\<forall>i \<in> set (detected (pushInteraction pre t d l p ang st)). accepted L P i"
  using assms by (simp add: detected_push)

lemma map_filter_member: "v \<in> set (List.map_filter f xs) \<longleftrightarrow> (\<exists>u \<in> set xs. f u = Some v)"
  by (induction xs) (auto simp: map_filter_simps split: option.splits)

lemma namedAtoms_Names:
  "tableLookup tbl (resName (resAtoms ! 0)) = Names names
   \<Longrightarrow> namedAtoms tbl resAtoms = Some (filter (\<lambda>a. name a \<in> set names) resAtoms)"
  by (simp add: namedAtoms_def)

lemma namedAtoms_atoms: "namedAtoms tbl resAtoms = Some grp \<Longrightarrow> set grp \<subseteq> set resAtoms"
  by (auto simp: namedAtoms_def split: tableEntry.splits)

lemma aromaticRings_member:
  assumes "resAtoms \<in> set (groupResidues P)"
    and "tableLookup AROMATIC_PLANES (resName (resAtoms ! 0)) = Names names"
    and "length (filter (\<lambda>a. name a \<in> set names) resAtoms) \<ge> 3"
  shows "filter (\<lambda>a. name a \<in> set names) resAtoms \<in> set (aromaticRings P)"
proof -
  from namedAtoms_Names [OF assms(2)] assms(1)
  have "filter (\<lambda>a. name a \<in> set names) resAtoms
        \<in> set (List.map_filter (namedAtoms AROMATIC_PLANES) (groupResidues P))"
    by (auto simp: map_filter_member)
  with assms(3) show ?thesis by (simp add: aromaticRings_def)
qed

lemma chargeCentres_member:
  assumes "resAtoms \<in> set (groupResidues P)"
    and "tableLookup tbl (resName (resAtoms ! 0)) = Names names"
    and "length (filter (\<lambda>a. name a \<in> set names) resAtoms) > 0"
  shows "filter (\<lambda>a. name a \<in> set names) resAtoms \<in> set (chargeCentres tbl P)"
proof -
  from namedAtoms_Names [OF assms(2)] assms(1)
  have "filter (\<lambda>a. name a \<in> set names) resAtoms
        \<in> set (List.map_filter (namedAtoms tbl) (groupResidues P))"
    by (auto simp: map_filter_member)
  with assms(3) show ?thesis by (simp add: chargeCentres_def)
qed

lemma named_group_first:
  assumes "grp \<in> set (List.map_filter (namedAtoms tbl) (groupResidues P))" and "grp \<noteq> []"
  shows "grp ! 0 \<in> set P"
proof -
  from assms(1) obtain resAtoms where
    r: "resAtoms \<in> set (groupResidues P)" "namedAtoms tbl resAtoms = Some grp"
    by (auto simp: map_filter_member)
  from groupResidues_groups [OF r(1)] namedAtoms_atoms [OF r(2)] have "set grp \<subseteq> set P"
    by blast
  with nth0_mem [OF assms(2)] show ?thesis by blast
qed

lemma aromaticRings_first: "grp \<in> set (aromaticRings P) \<Longrightarrow> grp ! 0 \<in> set P"
  by (rule named_group_first [of _ AROMATIC_PLANES]) (auto simp: aromaticRings_def)

lemma chargeCentres_first: "grp \<in> set (chargeCentres tbl P) \<Longrightarrow> grp ! 0 \<in> set P"
  by (rule named_group_first [of _ tbl]) (auto simp: chargeCentres_def)

lemma type_facts:
  "atomPairType HydrogenBond" "atomPairType HalogenBond" "atomPairType Hydrophobic"
  "atomPairType MetalCoordination" "\<not> atomPairType PiStacking" "\<not> atomPairType SaltBridge"
  by (simp_all add: atomPairType_def)

lemma accepted_atom_pair:
  assumes "l \<in> set L" "p \<in> set P" "atomPairType t" "distance l p \<le> atomPairCutoff t"
  shows "accepted L P \<lparr>id_of = s, type_of = t, distance_of = distance l p,
                     ligandAtom = l, proteinAtom = p, angle_of = ang\<rparr>"
  using assms by (simp add: accepted_def measuredBetweenAtoms_def)

lemma accepted_stacking:
  assumes "ring \<in> set (findLigandRings L)" "grp \<in> set (aromaticRings P)"
    "distance (getCenter grp) (getCenter ring) \<le> PI_STACKING_DIST"
  shows "accepted L P \<lparr>id_of = s, type_of = PiStacking,
                     distance_of = distance (getCenter grp) (getCenter ring),
                     ligandAtom = ring ! 0, proteinAtom = grp ! 0, angle_of = ang\<rparr>"
proof -
  let ?i = "\<lparr>id_of = s, type_of = PiStacking,
             distance_of = distance (getCenter grp) (getCenter ring),
             ligandAtom = ring ! 0, proteinAtom = grp ! 0, angle_of = ang\<rparr>"
  have "centroidToRing grp ring ?i \<and> distance_of ?i \<le> PI_STACKING_DIST"
    using assms(3) by (simp add: centroidToRing_def)
  with assms(1,2) have "measuredFromCentroid L P ?i"
    unfolding measuredFromCentroid_def Let_def by (simp, blast)
  with findLigandRings_ring_atoms(3) [OF assms(1)] aromaticRings_first [OF assms(2)]
  show ?thesis by (simp add: accepted_def type_facts)
qed

lemma accepted_ring_cation:
  assumes "l \<in> set L" "grp \<in> set (aromaticRings P)"
    "distance l (getCenter grp) < PI_CATION_DIST"
  shows "accepted L P \<lparr>id_of = s, type_of = PiStacking, distance_of = distance l (getCenter grp),
                     ligandAtom = l, proteinAtom = grp ! 0, angle_of = ang\<rparr>"
proof -
  let ?i = "\<lparr>id_of = s, type_of = PiStacking, distance_of = distance l (getCenter grp),
             ligandAtom = l, proteinAtom = grp ! 0, angle_of = ang\<rparr>"
  have "atomToCentroid grp ?i \<and> distance_of ?i < PI_CATION_DIST"
    using assms(3) by (simp add: atomToCentroid_def)
  with assms(2) have "measuredFromCentroid L P ?i"
    unfolding measuredFromCentroid_def Let_def by (simp, blast)
  with assms(1) aromaticRings_first [OF assms(2)]
  show ?thesis by (simp add: accepted_def type_facts)
qed

lemma accepted_cation_ring:
  assumes "ring \<in> set (findLigandRings L)" "grp \<in> set (chargeCentres POS_CHARGE_ATOMS P)"
    "distance (getCenter grp) (getCenter ring) < PI_CATION_DIST"
  shows "accepted L P \<lparr>id_of = s, type_of = PiStacking,
                     distance_of = distance (getCenter grp) (getCenter ring),
                     ligandAtom = ring ! 0, proteinAtom = grp ! 0, angle_of = ang\<rparr>"
proof -
  let ?i = "\<lparr>id_of = s, type_of = PiStacking,
             distance_of = distance (getCenter grp) (getCenter ring),
             ligandAtom = ring ! 0, proteinAtom = grp ! 0, angle_of = ang\<rparr>"
  have "centroidToRing grp ring ?i \<and> distance_of ?i < PI_CATION_DIST"
    using assms(3) by (simp add: centroidToRing_def)
  with assms(1,2) have "measuredFromCentroid L P ?i"
    unfolding measuredFromCentroid_def Let_def by (simp, blast)
  with findLigandRings_ring_atoms(3) [OF assms(1)] chargeCentres_first [OF assms(2)]
  show ?thesis by (simp add: accepted_def type_facts)
qed

lemma accepted_salt_bridge:
  assumes "l \<in> set L"
    "grp \<in> set (chargeCentres POS_CHARGE_ATOMS P) \<or> grp \<in> set (chargeCentres NEG_CHARGE_ATOMS P)"
    "distance l (getCenter grp) < SALT_BRIDGE_DIST"
  shows "accepted L P \<lparr>id_of = s, type_of = SaltBridge, distance_of = distance l (getCenter grp),
                     ligandAtom = l, proteinAtom = grp ! 0, angle_of = ang\<rparr>"
proof -
  let ?i = "\<lparr>id_of = s, type_of = SaltBridge, distance_of = distance l (getCenter grp),
             ligandAtom = l, proteinAtom = grp ! 0, angle_of = ang\<rparr>"
  have "atomToCentroid grp ?i \<and> distance_of ?i < SALT_BRIDGE_DIST"
    using assms(3) by (simp add: atomToCentroid_def)
  with assms(2) have "measuredFromCentroid L P ?i"
    unfolding measuredFromCentroid_def Let_def by (simp, blast)
  moreover from assms(2) have "grp ! 0 \<in> set P"
    using chargeCentres_first by blast
  ultimately show ?thesis using assms(1) by (simp add: accepted_def type_facts)
qed

lemma cutoff_values:
  "atomPairCutoff HydrogenBond = HBOND_DIST" "atomPairCutoff Hydrophobic = HYDROPHOBIC_DIST"
  "atomPairCutoff HalogenBond = HALOGEN_DIST" "atomPairCutoff MetalCoordination = METAL_DIST"
  by (simp_all add: atomPairCutoff_def)

lemma piStackingStep_accepted:
  assumes inv: "\<forall>i \<in> set (detected st). accepted L P i"
    and grp: "ringAtoms \<in> set (aromaticRings P)"
    and ring: "lRing \<in> set (ligandRingDataOf (findLigandRings L))"
  shows "\<forall>i \<in> set (detected (piStackingStep (getCenter ringAtoms) pNormal ringAtoms lRing st)).
           accepted L P i"
proof -
  note m = ligandRingData_member [OF ring]
  have "accepted L P \<lparr>id_of = s, type_of = PiStacking,
           distance_of = distance (getCenter ringAtoms) (center lRing),
           ligandAtom = ring_atoms lRing ! 0, proteinAtom = ringAtoms ! 0, angle_of = ang\<rparr>"
    if "distance (getCenter ringAtoms) (center lRing) \<le> PI_STACKING_DIST" for s ang
    using accepted_stacking [OF m(1) grp, of s ang] that
    by (simp add: m(2))
  with inv show ?thesis
    by (simp add: piStackingStep_def Let_def detected_push)
qed

lemma ringCationStep_accepted:
  assumes inv: "\<forall>i \<in> set (detected st). accepted L P i"
    and grp: "ringAtoms \<in> set (aromaticRings P)"
    and l: "lAtom \<in> set L"
  shows "\<forall>i \<in> set (detected (ringCationStep (getCenter ringAtoms) ringAtoms lAtom st)).
           accepted L P i"
proof -
  have "accepted L P \<lparr>id_of = s, type_of = PiStacking,
           distance_of = distance lAtom (getCenter ringAtoms),
           ligandAtom = lAtom, proteinAtom = ringAtoms ! 0, angle_of = ang\<rparr>"
    if "distance lAtom (getCenter ringAtoms) < PI_CATION_DIST" for s ang
    using l grp that by (rule accepted_ring_cation)
  with inv show ?thesis
    by (simp add: ringCationStep_def Let_def detected_push)
qed

lemma cationPiStep_accepted:
  assumes inv: "\<forall>i \<in> set (detected st). accepted L P i"
    and grp: "posAtoms \<in> set (chargeCentres POS_CHARGE_ATOMS P)"
    and ring: "lRing \<in> set (ligandRingDataOf (findLigandRings L))"
  shows "\<forall>i \<in> set (detected (cationPiStep (getCenter posAtoms) posAtoms lRing st)).
           accepted L P i"
proof -
  note m = ligandRingData_member [OF ring]
  have "accepted L P \<lparr>id_of = s, type_of = PiStacking,
           distance_of = distance (getCenter posAtoms) (center lRing),
           ligandAtom = ring_atoms lRing ! 0, proteinAtom = posAtoms ! 0, angle_of = ang\<rparr>"
    if "distance (getCenter posAtoms) (center lRing) < PI_CATION_DIST" for s ang
    using accepted_cation_ring [OF m(1) grp, of s ang] that
    by (simp add: m(2))
  with inv show ?thesis
    by (simp add: cationPiStep_def Let_def detected_push)
qed

lemma saltBridgePosStep_accepted:
  assumes inv: "\<forall>i \<in> set (detected st). accepted L P i"
    and grp: "posAtoms \<in> set (chargeCentres POS_CHARGE_ATOMS P)"
    and l: "lAtom \<in> set L"
  shows "\<forall>i \<in> set (detected (saltBridgePosStep (getCenter posAtoms) posAtoms lAtom st)).
           accepted L P i"
proof -
  from grp have g: "posAtoms \<in> set (chargeCentres POS_CHARGE_ATOMS P)
                    \<or> posAtoms \<in> set (chargeCentres NEG_CHARGE_ATOMS P)" ..
  have "accepted L P \<lparr>id_of = s, type_of = SaltBridge,
           distance_of = distance lAtom (getCenter posAtoms),
           ligandAtom = lAtom, proteinAtom = posAtoms ! 0, angle_of = ang\<rparr>"
    if "distance lAtom (getCenter posAtoms) < SALT_BRIDGE_DIST" for s ang
    using l g that by (rule accepted_salt_bridge)
  with inv show ?thesis
    by (simp add: saltBridgePosStep_def Let_def detected_push)
qed

lemma saltBridgeNegStep_accepted:
  assumes inv: "\<forall>i \<in> set (detected st). accepted L P i"
    and grp: "negAtoms \<in> set (chargeCentres NEG_CHARGE_ATOMS P)"
    and l: "lAtom \<in> set L"
  shows "\<forall>i \<in> set (detected (saltBridgeNegStep (getCenter negAtoms) negAtoms lAtom st)).
           accepted L P i"
proof -
  from grp have g: "negAtoms \<in> set (chargeCentres POS_CHARGE_ATOMS P)
                    \<or> negAtoms \<in> set (chargeCentres NEG_CHARGE_ATOMS P)" ..
  have "accepted L P \<lparr>id_of = s, type_of = SaltBridge,
           distance_of = distance lAtom (getCenter negAtoms),
           ligandAtom = lAtom, proteinAtom = negAtoms ! 0, angle_of = ang\<rparr>"
    if "distance lAtom (getCenter negAtoms) < SALT_BRIDGE_DIST" for s ang
    using l g that by (rule accepted_salt_bridge)
  with inv show ?thesis
    by (simp add: saltBridgeNegStep_def Let_def detected_push)
qed

lemma atomPairStep_accepted:
  assumes inv: "\<forall>i \<in> set (detected st). accepted L P i"
    and l: "lAtom \<in> set L" and p: "pAtom \<in> set P"
  shows "\<forall>i \<in> set (detected (atomPairStep lAtom pAtom st)). accepted L P i"
proof -
  have a: "accepted L P \<lparr>id_of = s, type_of = t, distance_of = distance lAtom pAtom,
           ligandAtom = lAtom, proteinAtom = pAtom, angle_of = ang\<rparr>"
    if "atomPairType t" "distance lAtom pAtom \<le> atomPairCutoff t" for s ang t
    using l p that by (rule accepted_atom_pair)
  note t = type_facts(1-4)
  show ?thesis
    using inv a [OF t(1)] a [OF t(2)] a [OF t(3)] a [OF t(4)]
    by (simp add: atomPairStep_def Let_def detected_push cutoff_values)
qed

lemma aromaticBlock_accepted:
  assumes inv: "\<forall>i \<in> set (detected st). accepted L P i"
    and grp: "resAtoms \<in> set (groupResidues P)"
    and rings: "set ligandRingData \<subseteq> set (ligandRingDataOf (findLigandRings L))"
    and res: "aromaticBlock ligandRingData L resAtoms
                (tableLookup AROMATIC_PLANES (resName (resAtoms ! 0))) st = Inr st'"
  shows "\<forall>i \<in> set (detected st'). accepted L P i"
proof (cases "tableLookup AROMATIC_PLANES (resName (resAtoms ! 0))")
  case Absent
  with res inv show ?thesis by (simp add: aromaticBlock_def)
next
  case Inherited
  with res show ?thesis by (simp add: aromaticBlock_def)
next
  case (Names names)
  let ?ra = "filter (\<lambda>a. name a \<in> set names) resAtoms"
  show ?thesis
  proof (cases "length ?ra \<ge> 3")
    case False
    with res inv Names show ?thesis by (simp add: aromaticBlock_def)
  next
    case True
    have g: "?ra \<in> set (aromaticRings P)"
      using grp Names True by (rule aromaticRings_member)
    let ?st1 = "fold (piStackingStep (getCenter ?ra) (getPlaneNormal ?ra) ?ra) ligandRingData st"
    have 1: "\<forall>i \<in> set (detected ?st1). accepted L P i"
    proof (rule fold_invariant [where I = "\<lambda>s :: Detection. \<forall>i \<in> set (detected s). accepted L P i", OF inv])
      fix lRing and s :: Detection
      assume "lRing \<in> set ligandRingData" and "\<forall>i \<in> set (detected s). accepted L P i"
      with rings show "\<forall>i \<in> set (detected (piStackingStep (getCenter ?ra) (getPlaneNormal ?ra) ?ra lRing s)).
           accepted L P i"
        by (intro piStackingStep_accepted g) blast+
    qed
    have 2: "\<forall>i \<in> set (detected (fold (ringCationStep (getCenter ?ra) ?ra) L ?st1)). accepted L P i"
    proof (rule fold_invariant [where I = "\<lambda>s :: Detection. \<forall>i \<in> set (detected s). accepted L P i", OF 1])
      fix lAtom and s :: Detection
      assume "lAtom \<in> set L" and "\<forall>i \<in> set (detected s). accepted L P i"
      then show "\<forall>i \<in> set (detected (ringCationStep (getCenter ?ra) ?ra lAtom s)). accepted L P i"
        by (intro ringCationStep_accepted g)
    qed
    from res Names True have "st' = fold (ringCationStep (getCenter ?ra) ?ra) L ?st1"
      by (simp add: aromaticBlock_def Let_def)
    with 2 show ?thesis by simp
  qed
qed

lemma positiveBlock_accepted:
  assumes inv: "\<forall>i \<in> set (detected st). accepted L P i"
    and grp: "resAtoms \<in> set (groupResidues P)"
    and rings: "set ligandRingData \<subseteq> set (ligandRingDataOf (findLigandRings L))"
    and res: "positiveBlock ligandRingData L resAtoms
                (tableLookup POS_CHARGE_ATOMS (resName (resAtoms ! 0))) st = Inr st'"
  shows "\<forall>i \<in> set (detected st'). accepted L P i"
proof (cases "tableLookup POS_CHARGE_ATOMS (resName (resAtoms ! 0))")
  case Absent
  with res inv show ?thesis by (simp add: positiveBlock_def)
next
  case Inherited
  with res show ?thesis by (simp add: positiveBlock_def)
next
  case (Names names)
  let ?pa = "filter (\<lambda>a. name a \<in> set names) resAtoms"
  show ?thesis
  proof (cases "length ?pa > 0")
    case False
    with res inv Names show ?thesis by (simp add: positiveBlock_def)
  next
    case True
    have g: "?pa \<in> set (chargeCentres POS_CHARGE_ATOMS P)"
      using grp Names True by (rule chargeCentres_member)
    let ?st1 = "fold (cationPiStep (getCenter ?pa) ?pa) ligandRingData st"
    have 1: "\<forall>i \<in> set (detected ?st1). accepted L P i"
    proof (rule fold_invariant [where I = "\<lambda>s :: Detection. \<forall>i \<in> set (detected s). accepted L P i", OF inv])
      fix lRing and s :: Detection
      assume "lRing \<in> set ligandRingData" and "\<forall>i \<in> set (detected s). accepted L P i"
      with rings show "\<forall>i \<in> set (detected (cationPiStep (getCenter ?pa) ?pa lRing s)). accepted L P i"
        by (intro cationPiStep_accepted g) blast+
    qed
    have 2: "\<forall>i \<in> set (detected (fold (saltBridgePosStep (getCenter ?pa) ?pa) L ?st1)). accepted L P i"
    proof (rule fold_invariant [where I = "\<lambda>s :: Detection. \<forall>i \<in> set (detected s). accepted L P i", OF 1])
      fix lAtom and s :: Detection
      assume "lAtom \<in> set L" and "\<forall>i \<in> set (detected s). accepted L P i"
      then show "\<forall>i \<in> set (detected (saltBridgePosStep (getCenter ?pa) ?pa lAtom s)). accepted L P i"
        by (intro saltBridgePosStep_accepted g)
    qed
    from res Names True have "st' = fold (saltBridgePosStep (getCenter ?pa) ?pa) L ?st1"
      by (simp add: positiveBlock_def Let_def)
    with 2 show ?thesis by simp
  qed
qed

lemma negativeBlock_accepted:
  assumes inv: "\<forall>i \<in> set (detected st). accepted L P i"
    and grp: "resAtoms \<in> set (groupResidues P)"
    and res: "negativeBlock L resAtoms
                (tableLookup NEG_CHARGE_ATOMS (resName (resAtoms ! 0))) st = Inr st'"
  shows "\<forall>i \<in> set (detected st'). accepted L P i"
proof (cases "tableLookup NEG_CHARGE_ATOMS (resName (resAtoms ! 0))")
  case Absent
  with res inv show ?thesis by (simp add: negativeBlock_def)
next
  case Inherited
  with res show ?thesis by (simp add: negativeBlock_def)
next
  case (Names names)
  let ?na = "filter (\<lambda>a. name a \<in> set names) resAtoms"
  show ?thesis
  proof (cases "length ?na > 0")
    case False
    with res inv Names show ?thesis by (simp add: negativeBlock_def)
  next
    case True
    have g: "?na \<in> set (chargeCentres NEG_CHARGE_ATOMS P)"
      using grp Names True by (rule chargeCentres_member)
    have 2: "\<forall>i \<in> set (detected (fold (saltBridgeNegStep (getCenter ?na) ?na) L st)). accepted L P i"
    proof (rule fold_invariant [where I = "\<lambda>s :: Detection. \<forall>i \<in> set (detected s). accepted L P i", OF inv])
      fix lAtom and s :: Detection
      assume "lAtom \<in> set L" and "\<forall>i \<in> set (detected s). accepted L P i"
      then show "\<forall>i \<in> set (detected (saltBridgeNegStep (getCenter ?na) ?na lAtom s)). accepted L P i"
        by (intro saltBridgeNegStep_accepted g)
    qed
    from res Names True have "st' = fold (saltBridgeNegStep (getCenter ?na) ?na) L st"
      by (simp add: negativeBlock_def Let_def)
    with 2 show ?thesis by simp
  qed
qed

lemma residueStep_accepted:
  assumes inv: "\<forall>i \<in> set (detected st). accepted L P i"
    and grp: "resAtoms \<in> set (groupResidues P)"
    and rings: "set ligandRingData \<subseteq> set (ligandRingDataOf (findLigandRings L))"
    and res: "residueStep ligandRingData L resAtoms st = Inr st'"
  shows "\<forall>i \<in> set (detected st'). accepted L P i"
proof -
  let ?n = "resName (resAtoms ! 0)"
  from res obtain st1 st2 where
    a: "aromaticBlock ligandRingData L resAtoms (tableLookup AROMATIC_PLANES ?n) st = Inr st1" and
    b: "positiveBlock ligandRingData L resAtoms (tableLookup POS_CHARGE_ATOMS ?n) st1 = Inr st2" and
    c: "negativeBlock L resAtoms (tableLookup NEG_CHARGE_ATOMS ?n) st2 = Inr st'"
    by (auto simp: residueStep_def Let_def split: sum.splits)
  from aromaticBlock_accepted [OF inv grp rings a]
  have "\<forall>i \<in> set (detected st1). accepted L P i" .
  from positiveBlock_accepted [OF this grp rings b]
  have "\<forall>i \<in> set (detected st2). accepted L P i" .
  from negativeBlock_accepted [OF this grp c] show ?thesis .
qed

lemma forEachResidue_accepted:
  assumes "\<forall>i \<in> set (detected st). accepted L P i"
    and "set groups \<subseteq> set (groupResidues P)"
    and "set ligandRingData \<subseteq> set (ligandRingDataOf (findLigandRings L))"
    and "forEachResidue (residueStep ligandRingData L) groups st = Inr st'"
  shows "\<forall>i \<in> set (detected st'). accepted L P i"
  using assms
proof (induction groups arbitrary: st)
  case Nil
  then show ?case by simp
next
  case (Cons g groups)
  from Cons.prems(4) obtain st1 where
    s: "residueStep ligandRingData L g st = Inr st1"
    "forEachResidue (residueStep ligandRingData L) groups st1 = Inr st'"
    by (auto split: sum.splits)
  from Cons.prems(2) have g: "g \<in> set (groupResidues P)"
    and gs: "set groups \<subseteq> set (groupResidues P)"
    by simp_all
  from residueStep_accepted [OF Cons.prems(1) g Cons.prems(3) s(1)]
  have "\<forall>i \<in> set (detected st1). accepted L P i" .
  from Cons.IH [OF this gs Cons.prems(3) s(2)] show ?case .
qed

lemma atomPairLoop_accepted:
  assumes inv: "\<forall>i \<in> set (detected st). accepted L P i"
  shows "\<forall>i \<in> set (detected (atomPairLoop L P st)). accepted L P i"
  unfolding atomPairLoop_def
proof (rule fold_invariant [where I = "\<lambda>s :: Detection. \<forall>i \<in> set (detected s). accepted L P i", OF inv])
  fix lAtom and s :: Detection
  assume l: "lAtom \<in> set L" and s: "\<forall>i \<in> set (detected s). accepted L P i"
  show "\<forall>i \<in> set (detected (fold (\<lambda>pAtom st. atomPairStep lAtom pAtom st) P s)). accepted L P i"
  proof (rule fold_invariant [where I = "\<lambda>s :: Detection. \<forall>i \<in> set (detected s). accepted L P i", OF s])
    fix pAtom and s' :: Detection
    assume "pAtom \<in> set P" and "\<forall>i \<in> set (detected s'). accepted L P i"
    with l show "\<forall>i \<in> set (detected (atomPairStep lAtom pAtom s')). accepted L P i"
      by (intro atomPairStep_accepted)
  qed
qed

lemma detectInteractions_accepted:
  assumes "detectInteractions L P = Inr cands"
  shows "\<forall>i \<in> set cands. accepted L P i"
proof -
  let ?rd = "ligandRingDataOf (findLigandRings L)"
  from assms obtain st where
    st: "forEachResidue (residueStep ?rd L) (groupResidues P) \<lparr>detected = [], idCounter = 0\<rparr> = Inr st"
    and c: "cands = detected (atomPairLoop L P st)"
    by (auto simp: detectInteractions_def Let_def split: sum.splits)
  have "\<forall>i \<in> set (detected st). accepted L P i"
  proof (rule forEachResidue_accepted [OF _ _ _ st])
    show "\<forall>i \<in> set (detected \<lparr>detected = [], idCounter = 0\<rparr>). accepted L P i" by simp
    show "set (groupResidues P) \<subseteq> set (groupResidues P)" by simp
    show "set ?rd \<subseteq> set ?rd" by simp
  qed
  then show ?thesis
    unfolding c by (rule atomPairLoop_accepted)
qed

section \<open>The engine on the example structures\<close>

lemmas engine_defs = residueStep_def aromaticBlock_def positiveBlock_def negativeBlock_def
  piStackingStep_def ringCationStep_def cationPiStep_def saltBridgePosStep_def saltBridgeNegStep_def
  atomPairLoop_def atomPairStep_def pushInteraction_def Let_def DONORS_def ACCEPTORS_def
  HALOGENS_def METALS_def distanceSq_def getCenter_def

lemma table_values:
  "tableLookup AROMATIC_PLANES ''ASP'' = Absent"
  "tableLookup POS_CHARGE_ATOMS ''ASP'' = Absent"
  "tableLookup NEG_CHARGE_ATOMS ''ASP'' = Names [''OD1'', ''OD2'']"
  by code_simp+

lemma string_values:
  "showNat 0 = ''0''" "showNat 1 = ''1''" "showNat (Suc 0) = ''1''" "showNat 2 = ''2''"
  "showInt 25 = ''25''"
  "toUpperCase ''N'' = [78]" "toUpperCase ''O'' = [79]"
  "codeUnits ''CL'' = [67, 76]" "codeUnits ''BR'' = [66, 82]" "codeUnits ''I'' = [73]"
  "codeUnits ''ZN'' = [90, 78]" "codeUnits ''MG'' = [77, 71]" "codeUnits ''FE'' = [70, 69]"
  "codeUnits ''CU'' = [67, 85]" "codeUnits ''CA'' = [67, 65]" "codeUnits ''NA'' = [78, 65]"
  "codeUnits ''K'' = [75]" "codeUnits ''MN'' = [77, 78]" "codeUnits ''CO'' = [67, 79]"
  "codeUnits ''NI'' = [78, 73]"
  by code_simp+

lemmas asp_atoms = aN1_def aOD1_def aOD2_def

lemma exAsp_extract: "extractAtoms exAspStructure exLig = ([aN1], [aOD1, aOD2])"
  by (simp add: extractAtoms_def exAspStructure_def exLig_def extractStep_def isLigand_def
      parseNGLAtom_def asp_atoms)

lemma exAsp_groups: "groupResidues [aOD1, aOD2] = [[aOD1, aOD2]]"
  by (simp add: groupResidues_def groupStep_def residueKey_def asp_atoms string_values)

lemma single_atom_no_rings: "findLigandRings [a] = []"
  by (simp add: findLigandRings_def buildAdjacency_def dfs.simps [of _ _ _ _ "[0]"])

lemma exAsp_residue:
  "residueStep [] [aN1] [aOD1, aOD2] \<lparr>detected = [], idCounter = 0\<rparr>
   = Inr \<lparr>detected = [exAspSaltBridge], idCounter = Suc 0\<rparr>"
  by (simp add: engine_defs cutoff_tests table_values string_values asp_atoms exAspSaltBridge_def)

lemma exAsp_atom_pairs:
  "atomPairLoop [aN1] [aOD1, aOD2] \<lparr>detected = [exAspSaltBridge], idCounter = Suc 0\<rparr>
   = \<lparr>detected = [exAspSaltBridge, exAspHydrogenBond], idCounter = 2\<rparr>"
  by (simp add: engine_defs cutoff_tests table_values string_values asp_atoms exAspHydrogenBond_def)

lemma exAsp_detect:
  "detectInteractions [aN1] [aOD1, aOD2] = Inr [exAspSaltBridge, exAspHydrogenBond]"
  by (simp add: detectInteractions_def exAsp_groups single_atom_no_rings ligandRingDataOf_def
      exAsp_residue exAsp_atom_pairs)

lemma exAsp_dedup: "deduplicate [exAspSaltBridge, exAspHydrogenBond] = [exAspSaltBridge]"
proof -
  have k: "pairKey exAspSaltBridge = ''2-0''" "pairKey exAspHydrogenBond = ''2-0''"
    by (simp_all add: pairKey_def exAspSaltBridge_def exAspHydrogenBond_def asp_atoms string_values)
  have t: "type_of exAspSaltBridge = SaltBridge" "type_of exAspHydrogenBond = HydrogenBond"
    by (simp_all add: exAspSaltBridge_def exAspHydrogenBond_def)
  show ?thesis
    by (simp add: deduplicate_def dedupStep_def k t typeScore_def)
qed

lemma exAsp_relevant:
  "filter (\<lambda>pAtom. let d = distance pAtom (getCenter [aN1]) in d < 18.0) [aOD1, aOD2] = [aOD1, aOD2]"
  unfolding Let_def cutoff_tests
  by (simp add: distanceSq_def getCenter_def asp_atoms)

lemma exAsp_result:
  "analyzeInteractions exAspStructure exLig
   = Inr \<lparr>interactions = [exAspSaltBridge], ligandCenter = \<lparr>x = 0, y = 0, z = 0\<rparr>\<rparr>"
proof -
  have c: "getCenter [aN1] = \<lparr>x = 0, y = 0, z = 0\<rparr>"
    by (simp add: getCenter_def aN1_def)
  show ?thesis
    unfolding analyzeInteractions_def exAsp_extract prod.case exAsp_relevant [unfolded Let_def] Let_def
    by (simp add: exAsp_detect exAsp_dedup c)
qed

lemma table_values_ALA:
  "tableLookup AROMATIC_PLANES ''ALA'' = Absent"
  "tableLookup POS_CHARGE_ATOMS ''ALA'' = Absent"
  "tableLookup NEG_CHARGE_ATOMS ''ALA'' = Absent"
  by code_simp+

lemma string_values_more: "showInt 10 = ''10''" "showInt 301 = ''301''"
  by code_simp+

lemmas hb_atoms = bN_def bO1_def

lemma exHBond_extract: "extractAtoms exHBondStructure exLig = ([bO1], [bN])"
  by (simp add: extractAtoms_def exHBondStructure_def exLig_def extractStep_def isLigand_def
      parseNGLAtom_def hb_atoms)

lemma exHBond_detect: "detectInteractions [bO1] [bN] = Inr [exHBond]"
proof -
  have g: "groupResidues [bN] = [[bN]]"
    by (simp add: groupResidues_def groupStep_def residueKey_def hb_atoms string_values_more)
  have r: "residueStep [] [bO1] [bN] \<lparr>detected = [], idCounter = 0\<rparr>
           = Inr \<lparr>detected = [], idCounter = 0\<rparr>"
    by (simp add: engine_defs table_values_ALA hb_atoms)
  have a: "atomPairLoop [bO1] [bN] \<lparr>detected = [], idCounter = 0\<rparr>
           = \<lparr>detected = [exHBond], idCounter = Suc 0\<rparr>"
    by (simp add: engine_defs cutoff_tests string_values hb_atoms exHBond_def)
  show ?thesis
    by (simp add: detectInteractions_def g single_atom_no_rings ligandRingDataOf_def r a)
qed

lemma exHBond_result:
  "analyzeInteractions exHBondStructure exLig
   = Inr \<lparr>interactions = [exHBond], ligandCenter = \<lparr>x = 0, y = 0, z = 0\<rparr>\<rparr>"
proof -
  have c: "getCenter [bO1] = \<lparr>x = 0, y = 0, z = 0\<rparr>"
    by (simp add: getCenter_def bO1_def)
  have f: "filter (\<lambda>pAtom. let d = distance pAtom (getCenter [bO1]) in d < 18.0) [bN] = [bN]"
    unfolding Let_def cutoff_tests by (simp add: distanceSq_def getCenter_def hb_atoms)
  have d: "deduplicate [exHBond] = [exHBond]"
    by (simp add: deduplicate_def dedupStep_def)
  show ?thesis
    unfolding analyzeInteractions_def exHBond_extract prod.case f [unfolded Let_def] Let_def
    by (simp add: exHBond_detect d c)
qed

lemma upt_6: "[0..<6] = [0, 1, 2, 3, 4, 5]"
  by code_simp

lemma hex_length: "length hexAtoms = 6"
  by (simp add: hexAtoms_def)

lemma hex_adjacency:
  "buildAdjacency hexAtoms = [[1, 5], [0, 2], [1, 3], [2, 4], [3, 5], [0, 4]]"
  unfolding buildAdjacency_def cutoff_tests hex_length
  by (simp add: upt_conv_Cons distanceSq_def hexAtoms_def ringAtom_def Let_def)

lemma hex_dfs:
  "fold (\<lambda>i st. dfs [[1, 5], [0, 2], [1, 3], [2, 4], [3, 5], [0, 4]] atoms i i [i] st)
        [0, 1, 2, 3, 4, 5] \<lparr>visitedPaths = [], rings = []\<rparr>
   = \<lparr>visitedPaths = [''0,1,2,3,4,5''], rings = [map (\<lambda>idx. atoms ! idx) [0, 1, 2, 3, 4, 5]]\<rparr>"
  by code_simp

lemma hex_rings: "findLigandRings hexAtoms = [hexAtoms]"
proof -
  let ?A = "[[1, 5], [0, 2], [1, 3], [2, 4], [3, 5], [0, 4]] :: nat list list"
  let ?init = "\<lparr>visitedPaths = [], rings = []\<rparr>"
  have el: "element (hexAtoms ! i) \<in> set [''C'', ''N'']" if "i \<in> set [0, 1, 2, 3, 4, 5]" for i
    using that by (auto simp: hexAtoms_def ringAtom_def)
  have "fold (\<lambda>i st. if element (hexAtoms ! i) \<in> set [''C'', ''N'']
                       then dfs ?A hexAtoms i i [i] st else st) [0, 1, 2, 3, 4, 5] ?init
        = fold (\<lambda>i st. dfs ?A hexAtoms i i [i] st) [0, 1, 2, 3, 4, 5] ?init"
    by (rule fold_cong) (simp_all only: el if_True)
  also have "\<dots> = \<lparr>visitedPaths = [''0,1,2,3,4,5''],
                      rings = [map (\<lambda>idx. hexAtoms ! idx) [0, 1, 2, 3, 4, 5]]\<rparr>"
    by (rule hex_dfs)
  finally have f: "fold (\<lambda>i st. if element (hexAtoms ! i) \<in> set [''C'', ''N'']
                       then dfs ?A hexAtoms i i [i] st else st) [0, 1, 2, 3, 4, 5] ?init
        = \<lparr>visitedPaths = [''0,1,2,3,4,5''],
           rings = [map (\<lambda>idx. hexAtoms ! idx) [0, 1, 2, 3, 4, 5]]\<rparr>" .
  have m: "map (\<lambda>idx. hexAtoms ! idx) [0, 1, 2, 3, 4, 5] = hexAtoms"
    using map_nth [of hexAtoms] by (simp only: hex_length upt_6)
  have n: "length hexAtoms \<noteq> 0" by (simp add: hex_length)
  show ?thesis
    unfolding findLigandRings_def Let_def hex_adjacency hex_length upt_6 f m
    using n by (simp add: hex_length)
qed

lemmas ring_atoms_defs = hexAtoms_def ringAtom_def pheAtoms_def pheAtom_def

lemma exRing_extract: "extractAtoms exRingStructure exRingLig = (hexAtoms, pheAtoms)"
  by (simp add: extractAtoms_def exRingStructure_def exRingLig_def extractStep_def isLigand_def
      parseNGLAtom_def toProxy_def ring_atoms_defs)

lemma exRing_centers:
  "getCenter hexAtoms = \<lparr>x = 0, y = 0, z = 0\<rparr>" "getCenter pheAtoms = \<lparr>x = 0, y = 0, z = 5\<rparr>"
  by (simp_all add: getCenter_def ring_atoms_defs)

lemma exRing_relevant:
  "filter (\<lambda>pAtom. let d = distance pAtom (getCenter hexAtoms) in d < 18.0) pheAtoms = pheAtoms"
  unfolding Let_def cutoff_tests exRing_centers
  by (simp add: distanceSq_def ring_atoms_defs)

lemma exRing_groups: "groupResidues pheAtoms = [pheAtoms]"
proof -
  have "showInt 50 = ''50''" by code_simp
  then show ?thesis
    by (simp add: groupResidues_def groupStep_def residueKey_def ring_atoms_defs)
qed

lemma phe_normal_zero: "getPlaneNormal pheAtoms = \<lparr>x = 0, y = 0, z = 0\<rparr>"
  by (simp add: getPlaneNormal_def ring_atoms_defs sub_def cross_def normalize_v_def mag_def)

lemma angle_with_zero_normal: "angleBetween \<lparr>x = 0, y = 0, z = 0\<rparr> v = 0"
  by (simp add: angleBetween_def mag_zero_vector)

lemma table_values_PHE:
  "tableLookup AROMATIC_PLANES ''PHE'' = Names [''CG'', ''CD1'', ''CD2'', ''CE1'', ''CE2'', ''CZ'']"
  "tableLookup POS_CHARGE_ATOMS ''PHE'' = Absent"
  "tableLookup NEG_CHARGE_ATOMS ''PHE'' = Absent"
  by code_simp+

lemma exRing_piStacking:
  "piStackingStep (getCenter pheAtoms) (getPlaneNormal pheAtoms) pheAtoms
     \<lparr>center = getCenter hexAtoms, normal = getPlaneNormal hexAtoms, ring_atoms = hexAtoms\<rparr>
     \<lparr>detected = [], idCounter = 0\<rparr>
   = \<lparr>detected = [exDegeneratePi], idCounter = Suc 0\<rparr>"
proof -
  have d: "distance (getCenter pheAtoms) (getCenter hexAtoms) \<le> PI_STACKING_DIST"
    unfolding cutoff_tests exRing_centers by (simp add: distanceSq_def)
  show ?thesis
    by (simp add: piStackingStep_def Let_def d phe_normal_zero angle_with_zero_normal
        PI_STACKING_ANGLE_PARALLEL_def pushInteraction_def exDegeneratePi_def string_values)
qed

lemma fold_unchanged:
  assumes "\<And>a s. a \<in> set xs \<Longrightarrow> f a s = s"
  shows "fold f xs st = st"
  using assms by (induction xs arbitrary: st) simp_all

lemma exRing_no_cation: "fold (ringCationStep c pheAtoms) hexAtoms st = st"
proof (rule fold_unchanged)
  fix a s assume "a \<in> set hexAtoms"
  then show "ringCationStep c pheAtoms a s = s"
    by (auto simp: ringCationStep_def hexAtoms_def ringAtom_def)
qed

lemma exRing_residue:
  "residueStep (ligandRingDataOf [hexAtoms]) hexAtoms pheAtoms \<lparr>detected = [], idCounter = 0\<rparr>
   = Inr \<lparr>detected = [exDegeneratePi], idCounter = Suc 0\<rparr>"
proof -
  have n: "resName (pheAtoms ! 0) = ''PHE''"
    by (simp add: pheAtoms_def pheAtom_def)
  have f: "filter (\<lambda>a. name a \<in> set [''CG'', ''CD1'', ''CD2'', ''CE1'', ''CE2'', ''CZ'']) pheAtoms
           = pheAtoms"
    by (simp add: pheAtoms_def pheAtom_def)
  have l: "3 \<le> length pheAtoms" by (simp add: pheAtoms_def)
  show ?thesis
    unfolding residueStep_def n table_values_PHE aromaticBlock_def positiveBlock_def
      negativeBlock_def Let_def tableEntry.case f ligandRingDataOf_def
    by (simp add: l exRing_piStacking exRing_no_cation)
qed

lemma atomPairStep_far: "HYDROPHOBIC_DIST < distance l p \<Longrightarrow> atomPairStep l p st = st"
proof -
  assume "HYDROPHOBIC_DIST < distance l p"
  then have "distance l p > max HBOND_DIST HYDROPHOBIC_DIST"
    by (simp add: HBOND_DIST_def HYDROPHOBIC_DIST_def)
  then show ?thesis
    unfolding atomPairStep_def Let_def by (simp only: if_True)
qed

lemma exRing_atom_pairs: "atomPairLoop hexAtoms pheAtoms st = st"
  unfolding atomPairLoop_def
proof (rule fold_unchanged)
  fix l s assume l: "l \<in> set hexAtoms"
  show "fold (\<lambda>pAtom st. atomPairStep l pAtom st) pheAtoms s = s"
  proof (rule fold_unchanged)
    fix p s' assume p: "p \<in> set pheAtoms"
    have "HYDROPHOBIC_DIST < distance l p"
      unfolding cutoff_tests using l p
      by (auto simp: distanceSq_def ring_atoms_defs)
    then show "atomPairStep l p s' = s'"
      by (rule atomPairStep_far)
  qed
qed

lemma exRing_detect: "detectInteractions hexAtoms pheAtoms = Inr [exDegeneratePi]"
  by (simp add: detectInteractions_def exRing_groups hex_rings exRing_residue exRing_atom_pairs)

lemma exRing_result:
  "analyzeInteractions exRingStructure exRingLig
   = Inr \<lparr>interactions = [exDegeneratePi], ligandCenter = \<lparr>x = 0, y = 0, z = 0\<rparr>\<rparr>"
proof -
  have d: "deduplicate [exDegeneratePi] = [exDegeneratePi]"
    by (simp add: deduplicate_def dedupStep_def)
  have n: "length hexAtoms \<noteq> 0" by (simp add: hex_length)
  show ?thesis
    unfolding analyzeInteractions_def exRing_extract prod.case exRing_relevant [unfolded Let_def] Let_def
    using n by (simp add: exRing_detect d exRing_centers)
qed

section \<open>Properties of the result\<close>

lemma deduplicate_subset: "w \<in> set (deduplicate cs) \<Longrightarrow> w \<in> set cs"
  using dedup_entry_props(1) [of "pairKey w" w cs] by (simp add: deduplicate_member)

lemma analyzeInteractions_cases:
  assumes "analyzeInteractions s lig = Inr res" and "extractAtoms s lig = (L, P)"
  shows "(L = [] \<and> interactions res = [])
         \<or> (\<exists>cands. detectInteractions L (filter (\<lambda>pAtom. distance pAtom (getCenter L) < 18.0) P) = Inr cands
                   \<and> interactions res = deduplicate cands)"
proof (cases "L = []")
  case True
  with assms have "res = \<lparr>interactions = [], ligandCenter = \<lparr>x = 0, y = 0, z = 0\<rparr>\<rparr>"
    by (simp add: analyzeInteractions_def)
  with True show ?thesis by simp
next
  case False
  with assms show ?thesis
    by (auto simp: analyzeInteractions_def Let_def split: sum.splits)
qed

text \<open>
  C7. For every structure with no atom matching the ligand residue selector,
  \<open>analyzeInteractions\<close> returns the empty interaction list with the zero vector as the
  centre, and it returns (no error is raised).
\<close>

theorem no_ligand_atoms_empty_result:
  "(\<forall>ap \<in> set (eachAtom structure). \<not> isLigand ligandResidue ap)
   \<Longrightarrow> analyzeInteractions structure ligandResidue
       = Inr \<lparr>interactions = [], ligandCenter = \<lparr>x = 0, y = 0, z = 0\<rparr>\<rparr>"
proof -
  assume "\<forall>ap \<in> set (eachAtom structure). \<not> isLigand ligandResidue ap"
  then have "filter (isLigand ligandResidue) (eachAtom structure) = []"
    by (simp add: filter_empty_conv)
  then show ?thesis
    by (simp add: analyzeInteractions_def extractAtoms_eq)
qed

theorem no_ligand_atoms_empty_result_witness:
  "analyzeInteractions exAspStructure exAbsentLig
     = Inr \<lparr>interactions = [], ligandCenter = \<lparr>x = 0, y = 0, z = 0\<rparr>\<rparr>"
proof -
  have "\<forall>ap \<in> set (eachAtom exAspStructure). \<not> isLigand exAbsentLig ap"
    by (simp add: exAspStructure_def exAbsentLig_def isLigand_def)
  then show ?thesis by (rule no_ligand_atoms_empty_result)
qed

text \<open>
  C2. For every structure and every ligand residue selector, the interaction list that
  \<open>analyzeInteractions\<close> returns has at most one interaction per pair of a ligand atom
  index and a protein atom index; and, the atoms of a structure having distinct indices,
  at most one interaction per unordered pair of these indices.
\<close>

theorem one_interaction_per_unordered_pair:
  assumes r: "analyzeInteractions structure ligandResidue = Inr res"
  shows "distinct (map pairOf (interactions res))
         \<and> (distinct (map ap_index (eachAtom structure))
              \<longrightarrow> distinct (map unorderedPair (interactions res)))"
proof -
  obtain L P where e: "extractAtoms structure ligandResidue = (L, P)"
    by (cases "extractAtoms structure ligandResidue")
  let ?P' = "filter (\<lambda>pAtom. distance pAtom (getCenter L) < 18.0) P"
  from analyzeInteractions_cases [OF r e]
  consider "interactions res = []"
    | cands where "detectInteractions L ?P' = Inr cands" "interactions res = deduplicate cands"
    by blast
  then show ?thesis
  proof cases
    case 1
    then show ?thesis by simp
  next
    case 2
    have dp: "distinct (map pairOf (interactions res))"
      unfolding 2(2) by (rule deduplicate_distinct_pairs)
    then have di: "distinct (interactions res)" and ip: "inj_on pairOf (set (interactions res))"
      by (simp_all add: distinct_map)
    have du: "distinct (map unorderedPair (interactions res))"
      if d: "distinct (map ap_index (eachAtom structure))"
    proof -
      have side: "index (ligandAtom i) \<noteq> index (proteinAtom j)"
        if "i \<in> set (interactions res)" "j \<in> set (interactions res)" for i j
      proof -
        from that 2(2) have "i \<in> set cands" "j \<in> set cands"
          by (simp_all add: deduplicate_subset)
        with detectInteractions_accepted [OF 2(1)] have "accepted L ?P' i" "accepted L ?P' j"
          by blast+
        then have "ligandAtom i \<in> set L" "proteinAtom j \<in> set P"
          by (simp_all add: accepted_def)
        with d e show ?thesis by (rule extractAtoms_disjoint_indices)
      qed
      have "inj_on unorderedPair (set (interactions res))"
      proof (rule inj_onI)
        fix i j
        assume i: "i \<in> set (interactions res)" and j: "j \<in> set (interactions res)"
          and u: "unorderedPair i = unorderedPair j"
        from side [OF i j] side [OF j i] u have "pairOf i = pairOf j"
          by (auto simp: unorderedPair_def pairOf_def doubleton_eq_iff)
        with ip i j show "i = j" by (auto dest: inj_onD)
      qed
      with di show ?thesis by (simp add: distinct_map)
    qed
    from dp du show ?thesis by blast
  qed
qed

theorem one_interaction_per_unordered_pair_witness:
  "analyzeInteractions exAspStructure exLig
     = Inr \<lparr>interactions = [exAspSaltBridge], ligandCenter = \<lparr>x = 0, y = 0, z = 0\<rparr>\<rparr>
   \<and> distinct (map pairOf [exAspSaltBridge])
   \<and> distinct (map unorderedPair [exAspSaltBridge])"
proof -
  have d: "distinct (map ap_index (eachAtom exAspStructure))"
    by (simp add: exAspStructure_def)
  from one_interaction_per_unordered_pair [OF exAsp_result] d exAsp_result
  show ?thesis by simp
qed

text \<open>
  C5, as the code has it. For every interaction in the output of \<open>analyzeInteractions\<close>:
  when its type is HydrogenBond, Hydrophobic, HalogenBond or MetalCoordination, the
  distance field is the Euclidean distance between the positions of its ligand atom and
  its protein atom, and it is at most the cutoff of the type. Otherwise the type is
  SaltBridge or PiStacking and the distance field is measured from the centroid of a
  group of protein atoms whose first atom is the protein atom of the record; the group
  consists of the atoms of one residue, among the protein atoms that passed the coarse
  filter, that the table lists for the residue name. For a SaltBridge the group is a
  non-empty charge centre (positive or negative) and the distance field is the distance
  from the ligand atom of the record to its centroid, less than \<open>SALT_BRIDGE_DIST\<close>. For
  a PiStacking the distance field is the distance from the centroid of an aromatic ring
  (at least three atoms) to the centroid of a ligand ring whose first atom is the ligand
  atom of the record, at most \<open>PI_STACKING_DIST\<close>; or the distance from the ligand atom of
  the record to the centroid of an aromatic ring, less than \<open>PI_CATION_DIST\<close>; or the
  distance from the centroid of a positive charge centre to the centroid of a ligand
  ring whose first atom is the ligand atom of the record, less than \<open>PI_CATION_DIST\<close>.
\<close>

theorem distance_is_the_accepted_one:
  assumes r: "analyzeInteractions structure ligandResidue = Inr res"
    and e: "extractAtoms structure ligandResidue = (ligandAtoms, proteinAtoms)"
    and i: "i \<in> set (interactions res)"
  shows "(atomPairType (type_of i) \<longrightarrow>
            distance_of i = distance (ligandAtom i) (proteinAtom i)
            \<and> distance_of i \<le> atomPairCutoff (type_of i))
         \<and> (\<not> atomPairType (type_of i) \<longrightarrow>
              (type_of i = SaltBridge \<or> type_of i = PiStacking)
              \<and> measuredFromCentroid ligandAtoms (relevantAtoms ligandAtoms proteinAtoms) i)"
proof -
  let ?P' = "relevantAtoms ligandAtoms proteinAtoms"
  from analyzeInteractions_cases [OF r e] i
  obtain cands where c: "detectInteractions ligandAtoms ?P' = Inr cands"
    "interactions res = deduplicate cands"
    unfolding relevantAtoms_def by auto
  from i c(2) have "i \<in> set cands" by (simp add: deduplicate_subset)
  with detectInteractions_accepted [OF c(1)] have a: "accepted ligandAtoms ?P' i" by blast
  show ?thesis
  proof (cases "atomPairType (type_of i)")
    case True
    with a show ?thesis by (simp add: accepted_def measuredBetweenAtoms_def)
  next
    case False
    with a have m: "measuredFromCentroid ligandAtoms ?P' i"
      by (simp add: accepted_def)
    then have "type_of i = SaltBridge \<or> type_of i = PiStacking"
      unfolding measuredFromCentroid_def Let_def by (cases "type_of i") simp_all
    with m False show ?thesis by simp
  qed
qed

theorem distance_is_the_accepted_one_witness:
  "distance_of exHBond = distance (ligandAtom exHBond) (proteinAtom exHBond)
   \<and> distance_of exHBond \<le> atomPairCutoff (type_of exHBond)
   \<and> measuredFromCentroid [aN1] (relevantAtoms [aN1] [aOD1, aOD2]) exAspSaltBridge
   \<and> measuredFromCentroid hexAtoms (relevantAtoms hexAtoms pheAtoms) exDegeneratePi"
proof -
  have 1: "exHBond \<in> set (interactions \<lparr>interactions = [exHBond], ligandCenter = \<lparr>x = 0, y = 0, z = 0\<rparr>\<rparr>)"
    by simp
  have 2: "exAspSaltBridge \<in> set (interactions \<lparr>interactions = [exAspSaltBridge], ligandCenter = \<lparr>x = 0, y = 0, z = 0\<rparr>\<rparr>)"
    by simp
  have 3: "exDegeneratePi \<in> set (interactions \<lparr>interactions = [exDegeneratePi], ligandCenter = \<lparr>x = 0, y = 0, z = 0\<rparr>\<rparr>)"
    by simp
  have t: "atomPairType (type_of exHBond)" "\<not> atomPairType (type_of exAspSaltBridge)"
    "\<not> atomPairType (type_of exDegeneratePi)"
    by (simp_all add: atomPairType_def exHBond_def exAspSaltBridge_def exDegeneratePi_def)
  from distance_is_the_accepted_one [OF exHBond_result exHBond_extract 1] t(1)
  have a: "distance_of exHBond = distance (ligandAtom exHBond) (proteinAtom exHBond)
           \<and> distance_of exHBond \<le> atomPairCutoff (type_of exHBond)"
    by blast
  from distance_is_the_accepted_one [OF exAsp_result exAsp_extract 2] t(2)
  have b: "measuredFromCentroid [aN1] (relevantAtoms [aN1] [aOD1, aOD2]) exAspSaltBridge"
    by blast
  from distance_is_the_accepted_one [OF exRing_result exRing_extract 3] t(3)
  have c: "measuredFromCentroid hexAtoms (relevantAtoms hexAtoms pheAtoms) exDegeneratePi"
    by blast
  from a b c show ?thesis by blast
qed

text \<open>
  The claim as stated fails on both paths. The salt bridge of the aspartate example has
  as its distance field the distance from the ligand nitrogen to the centroid of OD1
  and OD2 (\<open>sqrt 10\<close>), while its protein atom is OD1, at distance 3 from the nitrogen.
  The pi-stacking of the ring example has as its distance field the distance between the
  two ring centroids (5), while its atoms are the first atoms of the two rings, which
  are \<open>sqrt 32.84\<close> apart.
\<close>

theorem distance_between_stored_atoms_counterexample:
  "analyzeInteractions exAspStructure exLig
     = Inr \<lparr>interactions = [exAspSaltBridge], ligandCenter = \<lparr>x = 0, y = 0, z = 0\<rparr>\<rparr>
   \<and> distance_of exAspSaltBridge = sqrt 10
   \<and> distance (ligandAtom exAspSaltBridge) (proteinAtom exAspSaltBridge) = 3
   \<and> \<bar>distance_of exAspSaltBridge
        - distance (ligandAtom exAspSaltBridge) (proteinAtom exAspSaltBridge)\<bar> > 1 / 10 ^ 9
   \<and> analyzeInteractions exRingStructure exRingLig
     = Inr \<lparr>interactions = [exDegeneratePi], ligandCenter = \<lparr>x = 0, y = 0, z = 0\<rparr>\<rparr>
   \<and> distance_of exDegeneratePi = 5
   \<and> distance (ligandAtom exDegeneratePi) (proteinAtom exDegeneratePi) = sqrt 32.84
   \<and> \<bar>distance_of exDegeneratePi
        - distance (ligandAtom exDegeneratePi) (proteinAtom exDegeneratePi)\<bar> > 1 / 10 ^ 9"
proof -
  have c: "getCenter [aOD1, aOD2] = \<lparr>x = 3, y = 1, z = 0\<rparr>"
    by (simp add: getCenter_def asp_atoms)
  have d1: "distance_of exAspSaltBridge = sqrt 10"
    by (simp add: exAspSaltBridge_def c distance_def aN1_def)
  have "distance aN1 aOD1 = sqrt 9"
    by (simp add: distance_def asp_atoms)
  also have "sqrt 9 = 3"
    by (rule real_sqrt_unique) simp_all
  finally have d2: "distance (ligandAtom exAspSaltBridge) (proteinAtom exAspSaltBridge) = 3"
    by (simp add: exAspSaltBridge_def)
  have "(31 / 10)\<^sup>2 < (10 :: real)" by (simp add: power2_eq_square)
  then have "31 / 10 < sqrt 10" by (rule real_less_rsqrt)
  then have gap: "\<bar>sqrt 10 - 3\<bar> > 1 / 10 ^ 9" by simp
  have "distance (getCenter pheAtoms) (getCenter hexAtoms) = sqrt 25"
    unfolding exRing_centers by (simp add: distance_def)
  also have "sqrt 25 = 5"
    by (rule real_sqrt_unique) simp_all
  finally have e1: "distance_of exDegeneratePi = 5"
    by (simp add: exDegeneratePi_def)
  have e2: "distance (ligandAtom exDegeneratePi) (proteinAtom exDegeneratePi) = sqrt 32.84"
    by (simp add: exDegeneratePi_def distance_def ring_atoms_defs)
  have "(57 / 10)\<^sup>2 < (32.84 :: real)" by (simp add: power2_eq_square)
  then have "57 / 10 < sqrt 32.84" by (rule real_less_rsqrt)
  then have gap2: "\<bar>5 - sqrt 32.84\<bar> > 1 / 10 ^ 9" by simp
  from exAsp_result d1 d2 gap exRing_result e1 e2 gap2 show ?thesis by simp
qed

section \<open>Ring perception on the hexagon\<close>

theorem findLigandRings_sizes_and_no_duplicates_witness:
  "findLigandRings hexAtoms = [hexAtoms] \<and> length hexAtoms = 6
   \<and> distinct (map (\<lambda>r. sort (map index r)) (findLigandRings hexAtoms))"
proof -
  have d: "distinct (map index hexAtoms)"
    by (simp add: hexAtoms_def ringAtom_def)
  from findLigandRings_sizes_and_no_duplicates [of hexAtoms] d
  have "distinct (map (\<lambda>r. sort (map index r)) (findLigandRings hexAtoms))"
    by blast
  with hex_rings hex_length show ?thesis by blast
qed

section \<open>Degenerate plane normals in the pi-stacking test\<close>

text \<open>
  C4, as the code has it. For every pi-stacking candidate ring pair within the distance
  cutoff in which the plane normal of the protein ring or of the ligand ring is the zero
  vector, \<open>angleBetween\<close> gives the angle 0, which passes the test for parallel rings:
  a PiStacking interaction with angle 0 is recorded for that ring pair.
\<close>

theorem degenerate_normal_counts_as_parallel:
  assumes "distance pCenter (center lRing) \<le> PI_STACKING_DIST"
    and "pNormal = \<lparr>x = 0, y = 0, z = 0\<rparr> \<or> normal lRing = \<lparr>x = 0, y = 0, z = 0\<rparr>"
  shows "piStackingStep pCenter pNormal ringAtoms lRing st
         = pushInteraction ''pi'' PiStacking (distance pCenter (center lRing))
             (ring_atoms lRing ! 0) (ringAtoms ! 0) (Some 0) st"
proof -
  from assms(2) have "mag pNormal = 0 \<or> mag (normal lRing) = 0"
    using mag_zero_vector by auto
  then have "angleBetween pNormal (normal lRing) = 0"
    by (simp add: angleBetween_def Let_def)
  with assms(1) show ?thesis
    by (simp add: piStackingStep_def Let_def PI_STACKING_ANGLE_PARALLEL_def)
qed

theorem degenerate_normal_counts_as_parallel_witness:
  "piStackingStep (getCenter pheAtoms) (getPlaneNormal pheAtoms) pheAtoms
     \<lparr>center = getCenter hexAtoms, normal = getPlaneNormal hexAtoms, ring_atoms = hexAtoms\<rparr>
     \<lparr>detected = [], idCounter = 0\<rparr>
   = pushInteraction ''pi'' PiStacking (distance (getCenter pheAtoms) (getCenter hexAtoms))
       (hexAtoms ! 0) (pheAtoms ! 0) (Some 0) \<lparr>detected = [], idCounter = 0\<rparr>"
proof -
  let ?ring = "\<lparr>center = getCenter hexAtoms, normal = getPlaneNormal hexAtoms, ring_atoms = hexAtoms\<rparr>"
  have d: "distance (getCenter pheAtoms) (center ?ring) \<le> PI_STACKING_DIST"
    unfolding cutoff_tests by (simp add: exRing_centers distanceSq_def)
  have z: "getPlaneNormal pheAtoms = \<lparr>x = 0, y = 0, z = 0\<rparr> \<or> normal ?ring = \<lparr>x = 0, y = 0, z = 0\<rparr>"
    by (simp add: phe_normal_zero)
  from degenerate_normal_counts_as_parallel [OF d z, of pheAtoms "\<lparr>detected = [], idCounter = 0\<rparr>"]
  show ?thesis by simp
qed

text \<open>
  The claim as stated fails on the ring example: the three ring atoms of the
  phenylalanine are collinear, the plane normal of the protein ring is the zero vector,
  the ring centroids are 5 \<AA> apart, and the output holds a PiStacking interaction for
  the ring pair.
\<close>

theorem degenerate_normal_rejected_counterexample:
  "getPlaneNormal pheAtoms = \<lparr>x = 0, y = 0, z = 0\<rparr>
   \<and> distance (getCenter pheAtoms) (getCenter hexAtoms) \<le> PI_STACKING_DIST
   \<and> findLigandRings hexAtoms = [hexAtoms]
   \<and> analyzeInteractions exRingStructure exRingLig
       = Inr \<lparr>interactions = [exDegeneratePi], ligandCenter = \<lparr>x = 0, y = 0, z = 0\<rparr>\<rparr>
   \<and> type_of exDegeneratePi = PiStacking
   \<and> angle_of exDegeneratePi = Some 0"
proof -
  have d: "distance (getCenter pheAtoms) (getCenter hexAtoms) \<le> PI_STACKING_DIST"
    unfolding cutoff_tests by (simp add: exRing_centers distanceSq_def)
  have t: "type_of exDegeneratePi = PiStacking" "angle_of exDegeneratePi = Some 0"
    by (simp_all add: exDegeneratePi_def)
  from phe_normal_zero d hex_rings exRing_result t show ?thesis by blast
qed

section \<open>The coarse filter\<close>

lemmas long_atoms = cN_def cO1_def cO2_def

lemma exLong_extract: "extractAtoms exLongLigandStructure exLig = ([cO1, cO2], [cN])"
  by (simp add: extractAtoms_def exLongLigandStructure_def exLig_def extractStep_def isLigand_def
      parseNGLAtom_def long_atoms)

lemma exLong_center: "getCenter [cO1, cO2] = \<lparr>x = 20, y = 0, z = 0\<rparr>"
  by (simp add: getCenter_def long_atoms)

lemma exLong_relevant:
  "filter (\<lambda>pAtom. let d = distance pAtom (getCenter [cO1, cO2]) in d < 18.0) [cN] = []"
  unfolding Let_def cutoff_tests exLong_center
  by (simp add: distanceSq_def long_atoms)

lemma exLong_rings: "findLigandRings [cO1, cO2] = []"
  unfolding findLigandRings_def buildAdjacency_def cutoff_tests
  by (simp add: upt_conv_Cons distanceSq_def long_atoms Let_def)

lemma exLong_detect_filtered: "detectInteractions [cO1, cO2] [] = Inr []"
  by (simp add: detectInteractions_def groupResidues_def exLong_rings ligandRingDataOf_def
      atomPairLoop_def)

lemma exLong_detect_unfiltered: "detectInteractions [cO1, cO2] [cN] = Inr [exLongHBond]"
proof -
  have g: "groupResidues [cN] = [[cN]]"
    by (simp add: groupResidues_def groupStep_def residueKey_def long_atoms string_values_more)
  have r: "residueStep [] [cO1, cO2] [cN] \<lparr>detected = [], idCounter = 0\<rparr>
           = Inr \<lparr>detected = [], idCounter = 0\<rparr>"
    by (simp add: engine_defs table_values_ALA long_atoms)
  have far: "HYDROPHOBIC_DIST < distance cO2 cN"
    unfolding cutoff_tests by (simp add: distanceSq_def long_atoms)
  have near: "atomPairStep cO1 cN \<lparr>detected = [], idCounter = 0\<rparr>
              = \<lparr>detected = [exLongHBond], idCounter = Suc 0\<rparr>"
    by (simp add: engine_defs cutoff_tests string_values long_atoms exLongHBond_def)
  have a: "atomPairLoop [cO1, cO2] [cN] \<lparr>detected = [], idCounter = 0\<rparr>
           = \<lparr>detected = [exLongHBond], idCounter = Suc 0\<rparr>"
    by (simp add: atomPairLoop_def near atomPairStep_far [OF far])
  show ?thesis
    by (simp add: detectInteractions_def g exLong_rings ligandRingDataOf_def r a)
qed

text \<open>
  C1 on the long ligand. The backbone nitrogen is 23 \<AA> from the ligand centroid, so
  the filter removes it and the filtered analysis returns no interaction; it is 3 \<AA>
  from a ligand oxygen, and the analysis without the filter returns their hydrogen
  bond.
\<close>

theorem coarse_filter_drops_interaction:
  "distance cN (getCenter [cO1, cO2]) = 23
   \<and> distance cO1 cN = 3
   \<and> analyzeInteractions exLongLigandStructure exLig
       = Inr \<lparr>interactions = [], ligandCenter = \<lparr>x = 20, y = 0, z = 0\<rparr>\<rparr>
   \<and> analyzeInteractionsUnfiltered exLongLigandStructure exLig
       = Inr \<lparr>interactions = [exLongHBond], ligandCenter = \<lparr>x = 20, y = 0, z = 0\<rparr>\<rparr>"
proof -
  have "distance cN (getCenter [cO1, cO2]) = sqrt (23\<^sup>2)"
    unfolding exLong_center by (simp add: distance_def long_atoms)
  then have d1: "distance cN (getCenter [cO1, cO2]) = 23" by simp
  have "distance cO1 cN = sqrt (3\<^sup>2)"
    by (simp add: distance_def long_atoms)
  then have d2: "distance cO1 cN = 3" by simp
  have dd: "deduplicate [exLongHBond] = [exLongHBond]" "deduplicate [] = []"
    by (simp_all add: deduplicate_def dedupStep_def)
  have f: "analyzeInteractions exLongLigandStructure exLig
       = Inr \<lparr>interactions = [], ligandCenter = \<lparr>x = 20, y = 0, z = 0\<rparr>\<rparr>"
    unfolding analyzeInteractions_def exLong_extract prod.case exLong_relevant [unfolded Let_def] Let_def
    by (simp add: exLong_detect_filtered dd exLong_center)
  have u: "analyzeInteractionsUnfiltered exLongLigandStructure exLig
       = Inr \<lparr>interactions = [exLongHBond], ligandCenter = \<lparr>x = 20, y = 0, z = 0\<rparr>\<rparr>"
    unfolding analyzeInteractionsUnfiltered_def exLong_extract prod.case Let_def
    by (simp add: exLong_detect_unfiltered dd exLong_center)
  from d1 d2 f u show ?thesis by blast
qed

end
